theory Spec2Isabelle
  imports Complex_Main "HOL-Library.Sublist"
begin

section \<open>The key table and the process state\<close>

text \<open>
  A row of the table \<^verbatim>\<open>keys(kid INTEGER PRIMARY KEY AUTOINCREMENT, key BLOB, exp INTEGER)\<close>.
  The PEM text is written as its UTF-8 bytes and read back with \<^verbatim>\<open>toString("utf8")\<close>, so the
  column is kept as the string itself.
\<close>

record key_row =
  row_kid :: int
  row_key :: string
  row_exp :: int

text \<open>
  What the functions of \<^verbatim>\<open>server.mjs\<close> read and change:
  \<^item> \<open>table\<close>: the rows of \<^verbatim>\<open>keys\<close> in rowid order (the order of a table scan);
  \<^item> \<open>sqlite_sequence\<close>: the largest rowid AUTOINCREMENT has handed out;
  \<^item> \<open>clock\<close>: the values the coming calls of \<^verbatim>\<open>Date.now()\<close> return, in milliseconds;
    every call consumes one, so two reads within one request may differ. \<^verbatim>\<open>Date.now()\<close> is
    an integer of magnitude at most 8.64e15, where \<^verbatim>\<open>Math.floor(ms / 1000)\<close> is the integer
    quotient and adding 300 to it is exact;
  \<^item> \<open>keygen\<close>: the outcomes of the coming key generations: \<open>Inr pem\<close> is the PKCS#1 PEM
    of a fresh key, \<open>Inl msg\<close> is a rejection with that error message.
\<close>

record world =
  table :: "key_row list"
  sqlite_sequence :: int
  clock :: "nat \<Rightarrow> int"
  keygen :: "nat \<Rightarrow> string + string"

subsection \<open>Time helpers\<close>

definition nowMs :: "world \<Rightarrow> int \<times> world" where
  "nowMs w = (clock w 0, w\<lparr>clock := (\<lambda>n. clock w (Suc n))\<rparr>)"

definition nowSec :: "world \<Rightarrow> int \<times> world" where
  "nowSec w = (case nowMs w of (ms, w1) \<Rightarrow> (ms div 1000, w1))"

subsection \<open>Data access\<close>

text \<open>
  AUTOINCREMENT gives a new row the successor of the largest rowid ever used: the larger of
  the sequence counter and the rowids present.
\<close>

definition next_rowid :: "world \<Rightarrow> int" where
  "next_rowid w = foldr max (map row_kid (table w)) (sqlite_sequence w) + 1"

definition insertKey :: "string \<Rightarrow> int \<Rightarrow> world \<Rightarrow> int \<times> world" where
  "insertKey pem e w =
     (let k = next_rowid w
      in (k, w\<lparr>table := table w @ [\<lparr>row_kid = k, row_key = pem, row_exp = e\<rparr>],
               sqlite_sequence := k\<rparr>))"

text \<open>
  \<^verbatim>\<open>ORDER BY exp ASC|DESC LIMIT 1\<close> over a scan in rowid order. SQL leaves the order of rows
  with equal \<^verbatim>\<open>exp\<close> open; SQLite answers a query with \<^verbatim>\<open>ORDER BY\<close> and \<^verbatim>\<open>LIMIT\<close> from an index
  keyed by \<^verbatim>\<open>exp\<close> and then by the order of arrival from the scan, so rows with equal \<^verbatim>\<open>exp\<close>
  keep their rowid order in both directions: a stable sort. The same is taken for the query
  without \<^verbatim>\<open>LIMIT\<close>. \<^verbatim>\<open>.get()\<close> yields the first row or \<^verbatim>\<open>undefined\<close>, which \<^verbatim>\<open>|| null\<close> turns
  into \<^verbatim>\<open>null\<close>.
\<close>

definition order_by_asc :: "(key_row \<Rightarrow> int) \<Rightarrow> key_row list \<Rightarrow> key_row list" where
  "order_by_asc f rs = sort_key f rs"

definition order_by_desc :: "(key_row \<Rightarrow> int) \<Rightarrow> key_row list \<Rightarrow> key_row list" where
  "order_by_desc f rs = sort_key (\<lambda>r. - f r) rs"

definition get_first :: "key_row list \<Rightarrow> key_row option" where
  "get_first rs = (case rs of [] \<Rightarrow> None | r # _ \<Rightarrow> Some r)"

definition selectOneKey :: "bool \<Rightarrow> world \<Rightarrow> key_row option \<times> world" where
  "selectOneKey wantExpired w =
     (case nowSec w of (t, w1) \<Rightarrow>
        if wantExpired
        then (get_first (order_by_desc row_exp (filter (\<lambda>r. row_exp r \<le> t) (table w1))), w1)
        else (get_first (order_by_asc row_exp (filter (\<lambda>r. t < row_exp r) (table w1))), w1))"

definition selectAllValidKeys :: "world \<Rightarrow> key_row list \<times> world" where
  "selectAllValidKeys w =
     (case nowSec w of (t, w1) \<Rightarrow>
        (order_by_asc row_exp (filter (\<lambda>r. t < row_exp r) (table w1)), w1))"

definition hasActiveKey :: "world \<Rightarrow> bool \<times> world" where
  "hasActiveKey w =
     (case nowSec w of (t, w1) \<Rightarrow> (filter (\<lambda>r. t < row_exp r) (table w1) \<noteq> [], w1))"

definition hasExpiredKey :: "world \<Rightarrow> bool \<times> world" where
  "hasExpiredKey w =
     (case nowSec w of (t, w1) \<Rightarrow> (filter (\<lambda>r. row_exp r \<le> t) (table w1) \<noteq> [], w1))"

definition countKeys :: "world \<Rightarrow> int \<times> world" where
  "countKeys w = (int (length (table w)), w)"

section \<open>Key generation and lifecycle policy\<close>

subsection \<open>Numbers\<close>

text \<open>
  JavaScript numbers are IEEE-754 doubles. An integer of magnitude up to \<open>2^53\<close> is a double;
  above that the doubles are the multiples of a power of two, \<open>ulp_of\<close>, which doubles with
  every further binary digit. The sum of two integer-valued doubles is the double nearest to
  the exact sum, and of two equally near ones the one with the even significand. Overflow to
  \<^verbatim>\<open>Infinity\<close> needs a magnitude of \<open>2^1024\<close> and is left out.
\<close>

fun ulp_of :: "nat \<Rightarrow> nat" where
  "ulp_of m = (if m < 2 ^ 53 then 1 else 2 * ulp_of (m div 2))"

declare ulp_of.simps [simp del]

definition nearest_double :: "int \<Rightarrow> int" where
  "nearest_double n =
     (let m = nat \<bar>n\<bar>; u = ulp_of m; q = m div u; r = m mod u;
          k = (if 2 * r < u \<or> (2 * r = u \<and> even q) then q else q + 1)
      in sgn n * int (k * u))"

definition js_add :: "int \<Rightarrow> int \<Rightarrow> int" where
  "js_add a b = nearest_double (a + b)"

subsection \<open>Generation and the policies\<close>

text \<open>
  A rejected promise or a thrown exception is a value \<open>Inl msg\<close>, with the state reached
  when it was raised; \<open>Inr\<close> is a normal return. The four library calls that make the PEM
  (\<^verbatim>\<open>generateKeyPair\<close>, \<^verbatim>\<open>exportPKCS8\<close>, \<^verbatim>\<open>createPrivateKey\<close>, \<^verbatim>\<open>export\<close>) are one draw from
  \<open>keygen\<close>. The clock is read after the key is made. \<^verbatim>\<open>ttlSeconds\<close> is the value of a
  JavaScript number, here a rational, so that \<^verbatim>\<open>Math.floor\<close> is the floor; the sum
  \<^verbatim>\<open>nowSec() + Math.floor(ttlSeconds)\<close> is a sum of doubles.
\<close>

definition generateAndStoreRsaKey :: "rat \<Rightarrow> world \<Rightarrow> (string + int \<times> int) \<times> world" where
  "generateAndStoreRsaKey ttlSeconds w =
     (let w0 = w\<lparr>keygen := (\<lambda>n. keygen w (Suc n))\<rparr>
      in case keygen w 0 of
           Inl msg \<Rightarrow> (Inl msg, w0)
         | Inr pkcs1Pem \<Rightarrow>
             (case nowSec w0 of (t, w1) \<Rightarrow>
                let e = js_add t \<lfloor>ttlSeconds\<rfloor>
                in case insertKey pkcs1Pem e w1 of (k, w2) \<Rightarrow> (Inr (k, e), w2)))"

definition ensureSeedKeys :: "world \<Rightarrow> (string + unit) \<times> world" where
  "ensureSeedKeys w =
     (case countKeys w of (c, w1) \<Rightarrow>
        if c > 0 then (Inr (), w1)
        else case generateAndStoreRsaKey (60 * 60) w1 of
               (Inl msg, w2) \<Rightarrow> (Inl msg, w2)
             | (Inr _, w2) \<Rightarrow>
                 (case generateAndStoreRsaKey (-5 * 60) w2 of
                    (Inl msg, w3) \<Rightarrow> (Inl msg, w3)
                  | (Inr _, w3) \<Rightarrow> (Inr (), w3)))"

definition ensureActiveKeyPresent :: "world \<Rightarrow> (string + unit) \<times> world" where
  "ensureActiveKeyPresent w =
     (case hasActiveKey w of (b, w1) \<Rightarrow>
        if \<not> b
        then (case generateAndStoreRsaKey (60 * 60) w1 of
                (Inl msg, w2) \<Rightarrow> (Inl msg, w2)
              | (Inr _, w2) \<Rightarrow> (Inr (), w2))
        else (Inr (), w1))"

definition ensureExpiredKeyPresent :: "world \<Rightarrow> (string + unit) \<times> world" where
  "ensureExpiredKeyPresent w =
     (case hasExpiredKey w of (b, w1) \<Rightarrow>
        if \<not> b
        then (case generateAndStoreRsaKey (-60) w1 of
                (Inl msg, w2) \<Rightarrow> (Inl msg, w2)
              | (Inr _, w2) \<Rightarrow> (Inr (), w2))
        else (Inr (), w1))"

section \<open>The Express application\<close>

subsection \<open>Requests and responses\<close>

text \<open>
  A value of \<^verbatim>\<open>req.query\<close>: a string, an array or a nested object, as the query parser
  builds them. \<^verbatim>\<open>String(v)\<close> is the JavaScript coercion: a string is itself, an array is its
  elements' coercions joined by commas, an object is \<^verbatim>\<open>[object Object]\<close>.
\<close>

datatype qvalue = QStr string | QArr "qvalue list" | QObj "(string \<times> qvalue) list"

text \<open>
  The body of a request as \<^verbatim>\<open>express.json()\<close> meets it: nothing for it to parse (no body, or
  a body that is not of type \<^verbatim>\<open>application/json\<close>), JSON that it parses, or a body that it
  rejects with the given status (400 for JSON that does not parse).
\<close>

datatype payload = No_payload | Parsed_json | Rejected nat

record request =
  req_method :: string
  req_path :: string
  req_query :: "string \<rightharpoonup> qvalue"
  req_body :: payload

text \<open>
  A token is kept as the parts jose assembles: the protected header, the claims and the
  signature over them. The compact serialisation is the library's.
\<close>

record jwt_header =
  hdr_alg :: string
  hdr_kid :: string

record jwt_claims =
  claim_sub :: string
  claim_iss :: string
  claim_aud :: string
  claim_kid_db :: string
  claim_iat :: int
  claim_exp :: int

record jwt =
  jwt_header :: jwt_header
  jwt_claims :: jwt_claims
  jwt_signature :: string

type_synonym jwk = "string \<rightharpoonup> string"

datatype body =
    No_body
  | Status_text nat
  | Json_error string
  | Json_keys "jwk list"
  | Json_token jwt jwt
  | Error_page

text \<open>Of the headers only those the source sets with \<^verbatim>\<open>setHeader\<close> are recorded.\<close>

record response =
  res_status :: nat
  res_headers :: "string \<rightharpoonup> string"
  res_body :: body

definition new_response :: response where
  "new_response = \<lparr>res_status = 200, res_headers = Map.empty, res_body = No_body\<rparr>"

definition setHeader :: "string \<Rightarrow> string \<Rightarrow> response \<Rightarrow> response" where
  "setHeader name v res = res\<lparr>res_headers := (res_headers res)(name \<mapsto> v)\<rparr>"

definition status :: "nat \<Rightarrow> response \<Rightarrow> response" where
  "status code res = res\<lparr>res_status := code\<rparr>"

definition json :: "body \<Rightarrow> response \<Rightarrow> response" where
  "json b res = res\<lparr>res_body := b\<rparr>"

text \<open>\<^verbatim>\<open>res.sendStatus(c)\<close> sends the status text as the body; 204 and 304 carry none.\<close>

definition sendStatus :: "nat \<Rightarrow> response \<Rightarrow> response" where
  "sendStatus code res =
     (status code res)\<lparr>res_body := (if code = 204 \<or> code = 304 then No_body else Status_text code)\<rparr>"

subsection \<open>The libraries\<close>

text \<open>
  The cryptography of \<^verbatim>\<open>crypto\<close> and \<^verbatim>\<open>jose\<close> is a parameter:
  \<^item> \<open>createPrivateKey pem\<close> parses a PEM into a key object or throws;
  \<^item> \<open>exportJWK k\<close> is the JSON object jose exports for the public half of \<open>k\<close>;
  \<^item> \<open>sign k h c\<close> is the signature of the token with header \<open>h\<close> and claims \<open>c\<close>, or a
    rejection.
\<close>

datatype keyobj = KeyObject string

record lib =
  createPrivateKey :: "string \<Rightarrow> string + keyobj"
  exportJWK :: "keyobj \<Rightarrow> jwk"
  sign :: "keyobj \<Rightarrow> jwt_header \<Rightarrow> jwt_claims \<Rightarrow> string + string"

subsection \<open>Strings\<close>

text \<open>
  \<^verbatim>\<open>toLowerCase\<close> on the ASCII letters; other bytes are left alone (no character outside
  ASCII lowers to one of the letters compared against below).
\<close>

definition lower_char :: "char \<Rightarrow> char" where
  "lower_char c =
     (case map_of (zip ''ABCDEFGHIJKLMNOPQRSTUVWXYZ'' ''abcdefghijklmnopqrstuvwxyz'') c of
        None \<Rightarrow> c
      | Some d \<Rightarrow> d)"

definition toLowerCase :: "string \<Rightarrow> string" where
  "toLowerCase s = map lower_char s"

fun join_comma :: "string list \<Rightarrow> string" where
  "join_comma [] = []"
| "join_comma [s] = s"
| "join_comma (s # t # ss) = s @ '','' @ join_comma (t # ss)"

fun js_String :: "qvalue \<Rightarrow> string" where
  "js_String (QStr s) = s"
| "js_String (QArr vs) = join_comma (map js_String vs)"
| "js_String (QObj _) = ''[object Object]''"

text \<open>
  \<^verbatim>\<open>String(n)\<close> for an integer that a JavaScript number holds exactly: its decimal digits,
  with a sign when negative.
\<close>

fun digits_of :: "nat \<Rightarrow> string" where
  "digits_of n =
     (if n < 10 then [''0123456789'' ! n]
      else digits_of (n div 10) @ [''0123456789'' ! (n mod 10)])"

definition String_of_int :: "int \<Rightarrow> string" where
  "String_of_int i = (if i < 0 then CHR ''-'' # digits_of (nat (- i)) else digits_of (nat i))"

subsection \<open>Middleware\<close>

text \<open>
  In \<open>cors\<close> and \<open>methodGuard\<close>, \<open>Inl\<close> is a response that has been sent and \<open>Inr\<close> is the
  response object handed on by \<^verbatim>\<open>next()\<close>. The CORS layer sets three headers and answers
  every \<^verbatim>\<open>OPTIONS\<close> request itself.
\<close>

text \<open>
  The layers mounted before the CORS layer. \<^verbatim>\<open>morgan\<close> logs and hands every request on.
  \<^verbatim>\<open>express.json()\<close> hands a request on unless it rejects the body; then Express answers
  with the status of the rejection through its error handler, and no later layer runs.
\<close>

definition express_json :: "request \<Rightarrow> response option" where
  "express_json req =
     (case req_body req of
        Rejected code \<Rightarrow> Some \<lparr>res_status = code, res_headers = Map.empty, res_body = Error_page\<rparr>
      | _ \<Rightarrow> None)"

definition cors :: "request \<Rightarrow> response \<Rightarrow> response + response" where
  "cors req res =
     (let res1 = setHeader ''Access-Control-Allow-Origin'' ''*'' res;
          res2 = setHeader ''Access-Control-Allow-Headers'' ''Content-Type, Authorization'' res1;
          res3 = setHeader ''Access-Control-Allow-Methods'' ''GET,POST,OPTIONS'' res2
      in if req_method req = ''OPTIONS'' then Inl (sendStatus 204 res3) else Inr res3)"

definition methodGuard :: "string list \<Rightarrow> string \<Rightarrow> request \<Rightarrow> response \<Rightarrow> response + response" where
  "methodGuard allowed allowHeader req res =
     (if req_method req \<notin> set allowed
      then Inl (json (Json_error ''not allowed'') (status 405 (setHeader ''Allow'' allowHeader res)))
      else Inr res)"

text \<open>
  A route path matches as Express matches it by default: without regard to letter case and
  with an optional trailing slash.
\<close>

definition route :: "string \<Rightarrow> request \<Rightarrow> bool" where
  "route pattern req =
     (toLowerCase (req_path req) = toLowerCase pattern \<or>
      toLowerCase (req_path req) = toLowerCase pattern @ ''/'')"

subsection \<open>Helpers\<close>

definition keyObjectFromDbRow :: "lib \<Rightarrow> key_row \<Rightarrow> string + keyobj" where
  "keyObjectFromDbRow L row = createPrivateKey L (row_key row)"

definition publicJwkFromPrivateKey :: "lib \<Rightarrow> keyobj \<Rightarrow> string \<Rightarrow> jwk" where
  "publicJwkFromPrivateKey L privateKey kidLabel =
     (exportJWK L privateKey)
       (''kid'' \<mapsto> kidLabel, ''kty'' \<mapsto> ''RSA'', ''use'' \<mapsto> ''sig'', ''alg'' \<mapsto> ''RS256'')"

definition isExpiredRow :: "key_row \<Rightarrow> world \<Rightarrow> bool \<times> world" where
  "isExpiredRow row w = (case nowSec w of (t, w1) \<Rightarrow> (row_exp row \<le> t, w1))"

definition kidLabelForRow :: "key_row \<Rightarrow> world \<Rightarrow> string \<times> world" where
  "kidLabelForRow row w =
     (case isExpiredRow row w of (b, w1) \<Rightarrow>
        (if b then ''key-expired-1'' else ''key-active-1'', w1))"

text \<open>The \<^verbatim>\<open>catch\<close> clause of both route handlers.\<close>

definition catch500 :: "response \<Rightarrow> (string + response) \<times> world \<Rightarrow> response \<times> world" where
  "catch500 res r =
     (case r of
        (Inl msg, w) \<Rightarrow> (json (Json_error msg) (status 500 res), w)
      | (Inr sent, w) \<Rightarrow> (sent, w))"

subsection \<open>Routes\<close>

text \<open>
  The rows the JWKS handler works on: the valid rows after the backfill, read a second
  time after a second backfill when the first read is empty.
\<close>

definition jwks_rows :: "world \<Rightarrow> (string + key_row list) \<times> world" where
  "jwks_rows w =
     (case ensureActiveKeyPresent w of
        (Inl msg, w1) \<Rightarrow> (Inl msg, w1)
      | (Inr _, w1) \<Rightarrow>
          (case selectAllValidKeys w1 of (rows, w2) \<Rightarrow>
             if rows = []
             then (case ensureActiveKeyPresent w2 of
                     (Inl msg, w3) \<Rightarrow> (Inl msg, w3)
                   | (Inr _, w3) \<Rightarrow>
                       (case selectAllValidKeys w3 of (rows', w4) \<Rightarrow> (Inr rows', w4)))
             else (Inr rows, w2)))"

text \<open>The loop over the rows leaves after its first pass.\<close>

definition jwks_project :: "lib \<Rightarrow> key_row list \<Rightarrow> world \<Rightarrow> (string + jwk list) \<times> world" where
  "jwks_project L rows w =
     (case rows of
        [] \<Rightarrow> (Inr [], w)
      | r # _ \<Rightarrow>
          (case keyObjectFromDbRow L r of
             Inl msg \<Rightarrow> (Inl msg, w)
           | Inr privKeyObj \<Rightarrow>
               (case kidLabelForRow r w of (kidLabel, w1) \<Rightarrow>
                  (Inr ([] @ [publicJwkFromPrivateKey L privKeyObj kidLabel]), w1))))"

definition jwks_handler :: "lib \<Rightarrow> response \<Rightarrow> world \<Rightarrow> response \<times> world" where
  "jwks_handler L res w =
     catch500 res
       (case jwks_rows w of
          (Inl msg, w1) \<Rightarrow> (Inl msg, w1)
        | (Inr rows, w1) \<Rightarrow>
            if rows = []
            then (Inr (json (Json_error ''no keys available'') (status 404 res)), w1)
            else (case jwks_project L rows w1 of
                    (Inl msg, w2) \<Rightarrow> (Inl msg, w2)
                  | (Inr out, w2) \<Rightarrow> (Inr (json (Json_keys out) (status 200 res)), w2)))"

definition wantExpired :: "(string \<rightharpoonup> qvalue) \<Rightarrow> bool" where
  "wantExpired query =
     (case query ''expired'' of
        None \<Rightarrow> False
      | Some v \<Rightarrow>
          v = QStr '''' \<or>
          toLowerCase (js_String v) = ''1'' \<or>
          toLowerCase (js_String v) = ''true'')"

definition ensure_for :: "bool \<Rightarrow> world \<Rightarrow> (string + unit) \<times> world" where
  "ensure_for expired w = (if expired then ensureExpiredKeyPresent w else ensureActiveKeyPresent w)"

text \<open>
  The row the token is signed with: selected after the backfill, and once more after a
  second backfill when the first selection finds none.
\<close>

definition auth_row :: "bool \<Rightarrow> world \<Rightarrow> (string + key_row option) \<times> world" where
  "auth_row expired w =
     (case ensure_for expired w of
        (Inl msg, w1) \<Rightarrow> (Inl msg, w1)
      | (Inr _, w1) \<Rightarrow>
          (case selectOneKey expired w1 of (row, w2) \<Rightarrow>
             if row = None
             then (case ensure_for expired w2 of
                     (Inl msg, w3) \<Rightarrow> (Inl msg, w3)
                   | (Inr _, w3) \<Rightarrow>
                       (case selectOneKey expired w3 of (row', w4) \<Rightarrow> (Inr row', w4)))
             else (Inr row, w2)))"

definition auth_token :: "lib \<Rightarrow> bool \<Rightarrow> key_row \<Rightarrow> world \<Rightarrow> (string + jwt) \<times> world" where
  "auth_token L expired row w =
     (case keyObjectFromDbRow L row of
        Inl msg \<Rightarrow> (Inl msg, w)
      | Inr privateKeyObj \<Rightarrow>
          (case nowSec w of (iat, w1) \<Rightarrow>
             let e = (if expired then row_exp row else iat + 60 * 5)
             in case kidLabelForRow row w1 of (kidLabel, w2) \<Rightarrow>
                  let h = \<lparr>hdr_alg = ''RS256'', hdr_kid = kidLabel\<rparr>;
                      c = \<lparr>claim_sub = ''userABC'', claim_iss = ''jwks-server'',
                           claim_aud = ''gradebot'', claim_kid_db = String_of_int (row_kid row),
                           claim_iat = iat, claim_exp = e\<rparr>
                  in case sign L privateKeyObj h c of
                       Inl msg \<Rightarrow> (Inl msg, w2)
                     | Inr signature \<Rightarrow>
                         (Inr \<lparr>jwt_header = h, jwt_claims = c, jwt_signature = signature\<rparr>, w2)))"

definition auth_handler :: "lib \<Rightarrow> request \<Rightarrow> response \<Rightarrow> world \<Rightarrow> response \<times> world" where
  "auth_handler L req res w =
     catch500 res
       (let expired = wantExpired (req_query req)
        in case auth_row expired w of
             (Inl msg, w1) \<Rightarrow> (Inl msg, w1)
           | (Inr None, w1) \<Rightarrow>
               (Inr (json (Json_error (''No '' @ (if expired then ''expired'' else ''active'')
                                        @ '' key available''))
                      (status 401 res)), w1)
           | (Inr (Some row), w1) \<Rightarrow>
               (case auth_token L expired row w1 of
                  (Inl msg, w2) \<Rightarrow> (Inl msg, w2)
                | (Inr token, w2) \<Rightarrow> (Inr (json (Json_token token token) (status 200 res)), w2)))"

text \<open>\<^verbatim>\<open>app.all(path, mw)\<close>: the middleware runs when the path matches, whatever the method.\<close>

definition app_all ::
  "string \<Rightarrow> (request \<Rightarrow> response \<Rightarrow> response + response) \<Rightarrow> request \<Rightarrow> response \<Rightarrow> response + response"
where
  "app_all pattern mw req res = (if route pattern req then mw req res else Inr res)"

text \<open>
  The stack in the order of registration. \<open>pre\<close> stands for the library layers mounted
  first (\<^verbatim>\<open>morgan\<close>, \<^verbatim>\<open>express.json\<close>): \<open>Some r\<close> when they answer the request themselves,
  \<open>None\<close> when they hand it on; the server runs with \<open>express_json\<close> in this place.
  \<^verbatim>\<open>app.get\<close> also serves \<^verbatim>\<open>HEAD\<close>. The last layer answers 404.
\<close>

definition app :: "lib \<Rightarrow> (request \<Rightarrow> response option) \<Rightarrow> request \<Rightarrow> world \<Rightarrow> response \<times> world" where
  "app L pre req w =
     (case pre req of
        Some r \<Rightarrow> (r, w)
      | None \<Rightarrow>
     (case cors req new_response of
        Inl sent \<Rightarrow> (sent, w)
      | Inr res1 \<Rightarrow>
     (case app_all ''/jwks'' (methodGuard [''GET''] ''GET'') req res1 of
        Inl sent \<Rightarrow> (sent, w)
      | Inr res2 \<Rightarrow>
     (case app_all ''/.well-known/jwks.json'' (methodGuard [''GET''] ''GET'') req res2 of
        Inl sent \<Rightarrow> (sent, w)
      | Inr res3 \<Rightarrow>
     (case app_all ''/auth'' (methodGuard [''POST''] ''POST'') req res3 of
        Inl sent \<Rightarrow> (sent, w)
      | Inr res4 \<Rightarrow>
          if (req_method req = ''GET'' \<or> req_method req = ''HEAD'') \<and>
             (route ''/jwks'' req \<or> route ''/.well-known/jwks.json'' req)
          then jwks_handler L res4 w
          else if req_method req = ''POST'' \<and> route ''/auth'' req
          then auth_handler L req res4 w
          else (json (Json_error ''not found'') (status 404 res4), w))))))"

section \<open>Notions used to state the properties\<close>

text \<open>
  \<open>advances w w'\<close>: \<open>w'\<close> is \<open>w\<close> after some steps of the program: the table of \<open>w\<close> is an
  initial segment of the table of \<open>w'\<close>, and \<open>w'\<close> has consumed some clock readings of \<open>w\<close>.
  \<open>mono_clock w\<close>: the clock never runs backwards.
\<close>

definition advances :: "world \<Rightarrow> world \<Rightarrow> bool" where
  "advances w w' \<longleftrightarrow> prefix (table w) (table w') \<and> (\<exists>k. \<forall>n. clock w' n = clock w (n + k))"

definition mono_clock :: "world \<Rightarrow> bool" where
  "mono_clock w \<longleftrightarrow> (\<forall>i j. i \<le> j \<longrightarrow> clock w i \<le> clock w j)"

subsection \<open>Example states\<close>

text \<open>
  A store read at second 1000, the clock moving on by a quarter of a second per reading:
  three active keys expiring 300, 100 and 200 seconds from now and three keys that expired
  500, 10 and 100 seconds ago.
\<close>

definition example_store :: world where
  "example_store =
     \<lparr>table = [\<lparr>row_kid = 1, row_key = ''pem-1'', row_exp = 1300\<rparr>,
               \<lparr>row_kid = 2, row_key = ''pem-2'', row_exp = 1100\<rparr>,
               \<lparr>row_kid = 3, row_key = ''pem-3'', row_exp = 1200\<rparr>,
               \<lparr>row_kid = 4, row_key = ''pem-4'', row_exp = 500\<rparr>,
               \<lparr>row_kid = 5, row_key = ''pem-5'', row_exp = 990\<rparr>,
               \<lparr>row_kid = 6, row_key = ''pem-6'', row_exp = 900\<rparr>],
      sqlite_sequence = 6,
      clock = (\<lambda>n. 1000000 + 250 * int n),
      keygen = (\<lambda>n. Inr ''pem-new'')\<rparr>"

text \<open>
  A store after two requests have each backfilled in the same second: two active keys with
  the same expiration and two expired keys with the same expiration. \<open>twin_store_again\<close> is
  the same table met a little later within the same second.
\<close>

definition twin_store :: world where
  "twin_store =
     \<lparr>table = [\<lparr>row_kid = 1, row_key = ''pem-1'', row_exp = 940\<rparr>,
               \<lparr>row_kid = 2, row_key = ''pem-2'', row_exp = 940\<rparr>,
               \<lparr>row_kid = 3, row_key = ''pem-3'', row_exp = 4600\<rparr>,
               \<lparr>row_kid = 4, row_key = ''pem-4'', row_exp = 4600\<rparr>],
      sqlite_sequence = 4,
      clock = (\<lambda>n. 1000000),
      keygen = (\<lambda>n. Inr ''pem-new'')\<rparr>"

definition twin_store_again :: world where
  "twin_store_again = twin_store\<lparr>clock := (\<lambda>n. 1000700 + int n)\<rparr>"

text \<open>
  A library whose calls all succeed, a request to \<^verbatim>\<open>/auth\<close> with a given value of the
  \<^verbatim>\<open>expired\<close> parameter, and requests without a query.
\<close>

definition example_lib :: lib where
  "example_lib =
     \<lparr>createPrivateKey = (\<lambda>pem. Inr (KeyObject pem)),
      exportJWK = (\<lambda>k. [''kty'' \<mapsto> ''RSA'', ''n'' \<mapsto> ''modulus'', ''e'' \<mapsto> ''AQAB'']),
      sign = (\<lambda>k h c. Inr ''signature'')\<rparr>"

definition auth_request :: "qvalue option \<Rightarrow> request" where
  "auth_request v =
     \<lparr>req_method = ''POST'', req_path = ''/auth'', req_query = Map.empty(''expired'' := v),
      req_body = No_payload\<rparr>"

definition plain_request :: "string \<Rightarrow> string \<Rightarrow> request" where
  "plain_request m p =
     \<lparr>req_method = m, req_path = p, req_query = Map.empty, req_body = No_payload\<rparr>"

definition options_request :: "string \<Rightarrow> request" where
  "options_request p = plain_request ''OPTIONS'' p"

text \<open>
  An \<^verbatim>\<open>OPTIONS\<close> request that announces JSON and carries a body that does not parse.
\<close>

definition malformed_options_request :: "string \<Rightarrow> request" where
  "malformed_options_request p = (options_request p)\<lparr>req_body := Rejected 400\<rparr>"

text \<open>
  A store whose only key expires at second 1001, met by a request during which the clock
  passes from second 1000 to second 1001 after the second reading.
\<close>

definition race_store :: world where
  "race_store =
     \<lparr>table = [\<lparr>row_kid = 1, row_key = ''pem-1'', row_exp = 1001\<rparr>],
      sqlite_sequence = 1,
      clock = (\<lambda>n. if n < 2 then 1000999 else 1001000),
      keygen = (\<lambda>n. Inr ''pem-new'')\<rparr>"

subsection \<open>The parameter \<^verbatim>\<open>expired\<close> as the specification words it\<close>

text \<open>
  The specification's parse of the parameter: an enumeration of the accepted string
  values, which are the empty string, \<^verbatim>\<open>1\<close>, and \<^verbatim>\<open>true\<close> in any mix of upper and lower case.
  It is compared below with \<open>wantExpired\<close>, which follows the source.
\<close>

definition spec_expired_value :: "string \<Rightarrow> bool" where
  "spec_expired_value s \<longleftrightarrow>
     s = '''' \<or> s = ''1'' \<or>
     s \<in> set [[a, b, c, d]. a \<leftarrow> ''tT'', b \<leftarrow> ''rR'', c \<leftarrow> ''uU'', d \<leftarrow> ''eE'']"

text \<open>
  The claim's reading of a whole query: an expired request exactly when the parameter is
  present with one of these strings; every other value, of whatever kind, and the absence of
  the parameter make an active request.
\<close>

definition spec_wantExpired :: "(string \<rightharpoonup> qvalue) \<Rightarrow> bool" where
  "spec_wantExpired query =
     (case query ''expired'' of
        Some (QStr s) \<Rightarrow> spec_expired_value s
      | _ \<Rightarrow> False)"

section \<open>Properties of the store\<close>

lemma nowSec_eq: "nowSec w = (clock w 0 div 1000, w\<lparr>clock := (\<lambda>n. clock w (Suc n))\<rparr>)"
  by (simp add: nowSec_def nowMs_def)

lemma nowSec_frame:
  "fst (nowSec w) = clock w 0 div 1000"
  "table (snd (nowSec w)) = table w"
  "sqlite_sequence (snd (nowSec w)) = sqlite_sequence w"
  "keygen (snd (nowSec w)) = keygen w"
  "clock (snd (nowSec w)) n = clock w (Suc n)"
  by (simp_all add: nowSec_eq)

lemma selectOneKey_eq:
  "selectOneKey b w =
     (get_first (sort_key (\<lambda>r. if b then - row_exp r else row_exp r)
        (filter (\<lambda>r. if b then row_exp r \<le> clock w 0 div 1000 else clock w 0 div 1000 < row_exp r)
           (table w))),
      snd (nowSec w))"
  by (simp add: selectOneKey_def nowSec_eq order_by_asc_def order_by_desc_def)

lemma hasActiveKey_eq:
  "hasActiveKey w = ((\<exists>r \<in> set (table w). clock w 0 div 1000 < row_exp r), snd (nowSec w))"
  by (simp add: hasActiveKey_def nowSec_eq filter_empty_conv)

lemma hasExpiredKey_eq:
  "hasExpiredKey w = ((\<exists>r \<in> set (table w). row_exp r \<le> clock w 0 div 1000), snd (nowSec w))"
  by (simp add: hasExpiredKey_def nowSec_eq filter_empty_conv)

lemma get_first_sort_key_index:
  assumes "get_first (sort_key f (filter P rs)) = Some r"
  shows "\<exists>i < length rs. rs ! i = r \<and> (\<forall>j < i. P (rs ! j) \<longrightarrow> f (rs ! j) \<noteq> f r)"
proof -
  from assms obtain rest where eq: "sort_key f (filter P rs) = r # rest"
    by (auto simp: get_first_def split: list.splits)
  have "filter (\<lambda>y. f y = f r) (sort_key f (filter P rs)) = filter (\<lambda>y. f y = f r) (filter P rs)"
    by (rule sort_key_stable)
  then have "filter (\<lambda>y. P y \<and> f y = f r) rs = r # filter (\<lambda>y. f y = f r) rest"
    by (simp add: eq conj_commute)
  then obtain us vs where rs: "rs = us @ r # vs" and us: "\<forall>u \<in> set us. \<not> (P u \<and> f u = f r)"
    by (auto simp: filter_eq_Cons_iff)
  have "length us < length rs" "rs ! length us = r"
    by (simp_all add: rs)
  moreover have "\<forall>j < length us. P (rs ! j) \<longrightarrow> f (rs ! j) \<noteq> f r"
    using us by (auto simp: rs nth_append)
  ultimately show ?thesis by blast
qed

lemma get_first_None: "get_first rs = None \<longleftrightarrow> rs = []"
  by (cases rs) (simp_all add: get_first_def)

lemma get_first_sort_key_None:
  "get_first (sort_key f (filter P rs)) = None \<longleftrightarrow> (\<forall>r \<in> set rs. \<not> P r)"
proof -
  have "sort_key f (filter P rs) = [] \<longleftrightarrow> filter P rs = []"
    using length_sort [of f "filter P rs"] by (metis length_0_conv)
  then show ?thesis
    by (simp add: get_first_None filter_empty_conv)
qed

lemma get_first_sort_key_Some:
  assumes "get_first (sort_key f (filter P rs)) = Some r"
  shows "r \<in> set rs \<and> P r \<and> (\<forall>r' \<in> set rs. P r' \<longrightarrow> f r \<le> f r')"
proof -
  from assms obtain rest where eq: "sort_key f (filter P rs) = r # rest"
    by (auto simp: get_first_def split: list.splits)
  have "r \<in> set (sort_key f (filter P rs))"
    by (simp only: eq) simp
  then have mem: "r \<in> set rs \<and> P r"
    by simp
  have "sorted (map f (sort_key f (filter P rs)))"
    by (rule sorted_sort_key)
  then have "\<forall>y \<in> set rest. f r \<le> f y"
    by (simp add: eq)
  moreover have "set (r # rest) = {x \<in> set rs. P x}"
    using eq [symmetric] by simp
  ultimately have "\<forall>r' \<in> set rs. P r' \<longrightarrow> f r \<le> f r'"
    by auto
  with mem show ?thesis by simp
qed

text \<open>
  C1. For every store state and the one clock reading \<open>t\<close> the call takes,
  \<^verbatim>\<open>selectOneKey({wantExpired: false})\<close> returns a row whose \<^verbatim>\<open>exp\<close> is the smallest among the
  rows with \<^verbatim>\<open>exp > t\<close>, and \<^verbatim>\<open>null\<close> exactly when there is no such row;
  \<^verbatim>\<open>selectOneKey({wantExpired: true})\<close> returns a row whose \<^verbatim>\<open>exp\<close> is the largest among the
  rows with \<^verbatim>\<open>exp \<le> t\<close>, and \<^verbatim>\<open>null\<close> exactly when there is no such row. A row with
  \<^verbatim>\<open>exp = t\<close> counts as expired: it is never returned as active and can be returned as expired.
\<close>

theorem selectOneKey_spec:
  fixes w :: world
  defines "t \<equiv> clock w 0 div 1000"
  shows "(case fst (selectOneKey False w) of
            None \<Rightarrow> \<forall>r \<in> set (table w). \<not> t < row_exp r
          | Some r \<Rightarrow> r \<in> set (table w) \<and> t < row_exp r \<and> \<not> row_exp r \<le> t \<and>
                      (\<forall>r' \<in> set (table w). t < row_exp r' \<longrightarrow> row_exp r \<le> row_exp r'))
       \<and> (case fst (selectOneKey True w) of
            None \<Rightarrow> \<forall>r \<in> set (table w). \<not> row_exp r \<le> t
          | Some r \<Rightarrow> r \<in> set (table w) \<and> row_exp r \<le> t \<and> \<not> t < row_exp r \<and>
                      (\<forall>r' \<in> set (table w). row_exp r' \<le> t \<longrightarrow> row_exp r' \<le> row_exp r))
       \<and> (\<forall>r \<in> set (table w). row_exp r = t \<longrightarrow>
            fst (selectOneKey False w) \<noteq> Some r \<and> fst (selectOneKey True w) \<noteq> None)"
proof (intro conjI)
  let ?act = "get_first (sort_key row_exp (filter (\<lambda>r. t < row_exp r) (table w)))"
  let ?old = "get_first (sort_key (\<lambda>r. - row_exp r) (filter (\<lambda>r. row_exp r \<le> t) (table w)))"
  have act: "fst (selectOneKey False w) = ?act"
    by (simp add: selectOneKey_def nowSec_eq order_by_asc_def t_def)
  have old: "fst (selectOneKey True w) = ?old"
    by (simp add: selectOneKey_def nowSec_eq order_by_desc_def t_def)
  show "case fst (selectOneKey False w) of
            None \<Rightarrow> \<forall>r \<in> set (table w). \<not> t < row_exp r
          | Some r \<Rightarrow> r \<in> set (table w) \<and> t < row_exp r \<and> \<not> row_exp r \<le> t \<and>
                      (\<forall>r' \<in> set (table w). t < row_exp r' \<longrightarrow> row_exp r \<le> row_exp r')"
  proof (cases ?act)
    case None
    then have "\<forall>r \<in> set (table w). \<not> t < row_exp r"
      by (simp add: get_first_sort_key_None)
    with None show ?thesis
      by (simp only: act option.case)
  next
    case (Some r)
    from get_first_sort_key_Some [OF Some] show ?thesis
      by (simp add: act Some)
  qed
  show "case fst (selectOneKey True w) of
            None \<Rightarrow> \<forall>r \<in> set (table w). \<not> row_exp r \<le> t
          | Some r \<Rightarrow> r \<in> set (table w) \<and> row_exp r \<le> t \<and> \<not> t < row_exp r \<and>
                      (\<forall>r' \<in> set (table w). row_exp r' \<le> t \<longrightarrow> row_exp r' \<le> row_exp r)"
  proof (cases ?old)
    case None
    then have "\<forall>r \<in> set (table w). \<not> row_exp r \<le> t"
      by (simp add: get_first_sort_key_None)
    with None show ?thesis
      by (simp only: old option.case)
  next
    case (Some r)
    from get_first_sort_key_Some [OF Some] show ?thesis
      by (simp add: old Some)
  qed
  show "\<forall>r \<in> set (table w). row_exp r = t \<longrightarrow>
            fst (selectOneKey False w) \<noteq> Some r \<and> fst (selectOneKey True w) \<noteq> None"
  proof (intro ballI impI conjI)
    fix r assume r: "r \<in> set (table w)" and e: "row_exp r = t"
    show "fst (selectOneKey False w) \<noteq> Some r"
    proof
      assume "fst (selectOneKey False w) = Some r"
      then have "?act = Some r" by (simp add: act)
      from get_first_sort_key_Some [OF this] e show False by simp
    qed
    show "fst (selectOneKey True w) \<noteq> None"
      using r e by (auto simp: old get_first_sort_key_None)
  qed
qed

theorem selectOneKey_spec_witness:
  "fst (selectOneKey False example_store) = Some \<lparr>row_kid = 2, row_key = ''pem-2'', row_exp = 1100\<rparr>
   \<and> fst (selectOneKey True example_store) = Some \<lparr>row_kid = 5, row_key = ''pem-5'', row_exp = 990\<rparr>
   \<and> fst (selectOneKey False (example_store\<lparr>table := []\<rparr>)) = None
   \<and> fst (selectOneKey True (example_store\<lparr>table := []\<rparr>)) = None"
  using selectOneKey_spec [of example_store] selectOneKey_spec [of "example_store\<lparr>table := []\<rparr>"]
  by (simp add: example_store_def selectOneKey_eq get_first_def)

text \<open>
  C7. Selection is determined by the table and the second read from the clock. Two
  evaluations of \<^verbatim>\<open>selectOneKey\<close> with the same flag on the same table and the same second
  return the same row, whatever else differs; an evaluation leaves the table as it was, so
  the next one meets the same table. The row is the one the tie-break rule names: its
  expiration is the smallest among the active rows (the largest among the expired rows for
  the expired flag), and among qualifying rows with that same expiration it is the one
  inserted first. This holds for any number of qualifying rows.
\<close>

theorem selectOneKey_deterministic:
  fixes w w' :: world and b :: bool
  defines "t \<equiv> clock w 0 div 1000"
  defines "qualifies \<equiv> (\<lambda>r. if b then row_exp r \<le> t else t < row_exp r)"
  assumes same_store: "table w' = table w"
    and same_now: "clock w' 0 div 1000 = t"
  shows "fst (selectOneKey b w') = fst (selectOneKey b w)
       \<and> table (snd (selectOneKey b w)) = table w
       \<and> (\<forall>r. fst (selectOneKey b w) = Some r \<longrightarrow>
            (\<exists>i < length (table w). table w ! i = r \<and> qualifies r \<and>
               (\<forall>j < length (table w). qualifies (table w ! j) \<longrightarrow>
                  (if b then row_exp (table w ! j) \<le> row_exp r
                   else row_exp r \<le> row_exp (table w ! j)) \<and>
                  (row_exp (table w ! j) = row_exp r \<longrightarrow> i \<le> j))))"
proof (intro conjI allI impI)
  show "fst (selectOneKey b w') = fst (selectOneKey b w)"
    using same_store same_now by (simp add: selectOneKey_eq t_def)
  show "table (snd (selectOneKey b w)) = table w"
    by (simp add: selectOneKey_eq nowSec_frame)
next
  fix r assume "fst (selectOneKey b w) = Some r"
  then have sel: "get_first (sort_key (\<lambda>r. if b then - row_exp r else row_exp r)
        (filter qualifies (table w))) = Some r"
    unfolding selectOneKey_eq fst_conv qualifies_def t_def .
  from get_first_sort_key_Some [OF sel]
  have q: "qualifies r"
    and best: "\<forall>r' \<in> set (table w). qualifies r' \<longrightarrow>
                 (if b then row_exp r' \<le> row_exp r else row_exp r \<le> row_exp r')"
    by (auto split: if_splits)
  from get_first_sort_key_index [OF sel]
  obtain i where i: "i < length (table w)" "table w ! i = r"
    and first: "\<forall>j < i. qualifies (table w ! j) \<longrightarrow> row_exp (table w ! j) \<noteq> row_exp r"
    by (auto split: if_splits)
  have "\<forall>j < length (table w). qualifies (table w ! j) \<longrightarrow>
          (if b then row_exp (table w ! j) \<le> row_exp r else row_exp r \<le> row_exp (table w ! j)) \<and>
          (row_exp (table w ! j) = row_exp r \<longrightarrow> i \<le> j)"
  proof (intro allI impI conjI)
    fix j assume j: "j < length (table w)" and qj: "qualifies (table w ! j)"
    from j have "table w ! j \<in> set (table w)" by simp
    with best qj
    show "if b then row_exp (table w ! j) \<le> row_exp r else row_exp r \<le> row_exp (table w ! j)"
      by blast
    show "i \<le> j" if "row_exp (table w ! j) = row_exp r"
      using first qj that by (meson not_le_imp_less)
  qed
  with i q show "\<exists>i < length (table w). table w ! i = r \<and> qualifies r \<and>
               (\<forall>j < length (table w). qualifies (table w ! j) \<longrightarrow>
                  (if b then row_exp (table w ! j) \<le> row_exp r
                   else row_exp r \<le> row_exp (table w ! j)) \<and>
                  (row_exp (table w ! j) = row_exp r \<longrightarrow> i \<le> j))"
    by blast
qed

theorem selectOneKey_deterministic_witness:
  "table twin_store_again = table twin_store
   \<and> clock twin_store_again 0 div 1000 = clock twin_store 0 div 1000
   \<and> fst (selectOneKey False twin_store_again) = fst (selectOneKey False twin_store)
   \<and> fst (selectOneKey False twin_store) = Some \<lparr>row_kid = 3, row_key = ''pem-3'', row_exp = 4600\<rparr>
   \<and> fst (selectOneKey True twin_store_again) = fst (selectOneKey True twin_store)
   \<and> fst (selectOneKey True twin_store) = Some \<lparr>row_kid = 1, row_key = ''pem-1'', row_exp = 940\<rparr>"
  using selectOneKey_deterministic [of twin_store_again twin_store False]
    selectOneKey_deterministic [of twin_store_again twin_store True]
  by (simp add: twin_store_again_def twin_store_def selectOneKey_eq get_first_def)

section \<open>The table only grows\<close>

lemma advances_refl: "advances w w"
  unfolding advances_def by (auto intro: exI [of _ 0])

lemma advances_trans: "advances w w1 \<Longrightarrow> advances w1 w2 \<Longrightarrow> advances w w2"
  unfolding advances_def
proof (elim conjE exE, intro conjI)
  fix k l
  assume "prefix (table w) (table w1)" "prefix (table w1) (table w2)"
  then show "prefix (table w) (table w2)" by (rule prefix_order.trans)
  assume "\<forall>n. clock w1 n = clock w (n + k)" "\<forall>n. clock w2 n = clock w1 (n + l)"
  then have "\<forall>n. clock w2 n = clock w (n + (l + k))" by (simp add: add.assoc)
  then show "\<exists>k. \<forall>n. clock w2 n = clock w (n + k)" ..
qed

lemma advances_nowSec: "advances w (snd (nowSec w))"
  unfolding advances_def by (auto simp: nowSec_frame intro: exI [of _ 1])

lemma advances_insertKey: "advances w (snd (insertKey pem e w))"
  unfolding advances_def by (auto simp: insertKey_def Let_def intro: exI [of _ 0])

lemma advances_keygen: "advances w (w\<lparr>keygen := g\<rparr>)"
  unfolding advances_def by (auto intro: exI [of _ 0])

lemma advances_selectOneKey: "advances w (snd (selectOneKey b w))"
  using advances_nowSec [of w] by (simp add: selectOneKey_def case_prod_beta)

lemma advances_selectAllValidKeys: "advances w (snd (selectAllValidKeys w))"
  using advances_nowSec [of w] by (simp add: selectAllValidKeys_def case_prod_beta)

lemma advances_hasActiveKey: "advances w (snd (hasActiveKey w))"
  using advances_nowSec [of w] by (simp add: hasActiveKey_def case_prod_beta)

lemma advances_hasExpiredKey: "advances w (snd (hasExpiredKey w))"
  using advances_nowSec [of w] by (simp add: hasExpiredKey_def case_prod_beta)

lemma advances_countKeys: "advances w (snd (countKeys w))"
  by (simp add: countKeys_def advances_refl)

lemma advances_generate: "advances w (snd (generateAndStoreRsaKey ttl w))"
proof (cases "keygen w 0")
  case (Inl msg)
  then show ?thesis
    by (simp add: generateAndStoreRsaKey_def advances_keygen)
next
  case (Inr pem)
  let ?w0 = "w\<lparr>keygen := (\<lambda>n. keygen w (Suc n))\<rparr>"
  let ?w1 = "snd (nowSec ?w0)"
  let ?e = "js_add (fst (nowSec ?w0)) \<lfloor>ttl\<rfloor>"
  have eq: "snd (generateAndStoreRsaKey ttl w) = snd (insertKey pem ?e ?w1)"
    using Inr by (simp add: generateAndStoreRsaKey_def Let_def case_prod_beta)
  have "advances w ?w1"
    by (rule advances_trans [OF advances_keygen advances_nowSec])
  then have "advances w (snd (insertKey pem ?e ?w1))"
    by (rule advances_trans [OF _ advances_insertKey])
  then show ?thesis
    by (simp only: eq)
qed

lemma ensureSeedKeys_snd:
  "snd (ensureSeedKeys w) =
     (if table w \<noteq> [] then w
      else if isl (fst (generateAndStoreRsaKey (60 * 60) w))
      then snd (generateAndStoreRsaKey (60 * 60) w)
      else snd (generateAndStoreRsaKey (-5 * 60) (snd (generateAndStoreRsaKey (60 * 60) w))))"
  by (auto simp: ensureSeedKeys_def countKeys_def split: prod.splits sum.splits)

lemma ensureActive_snd:
  "snd (ensureActiveKeyPresent w) =
     (if fst (hasActiveKey w) then snd (hasActiveKey w)
      else snd (generateAndStoreRsaKey (60 * 60) (snd (hasActiveKey w))))"
  by (auto simp: ensureActiveKeyPresent_def split: prod.splits sum.splits)

lemma ensureExpired_snd:
  "snd (ensureExpiredKeyPresent w) =
     (if fst (hasExpiredKey w) then snd (hasExpiredKey w)
      else snd (generateAndStoreRsaKey (-60) (snd (hasExpiredKey w))))"
  by (auto simp: ensureExpiredKeyPresent_def split: prod.splits sum.splits)

lemma advances_ensureSeedKeys: "advances w (snd (ensureSeedKeys w))"
  using advances_generate [of w "60 * 60"]
    advances_trans [OF advances_generate [of w "60 * 60"]
      advances_generate [of "snd (generateAndStoreRsaKey (60 * 60) w)" "-5 * 60"]]
  by (simp add: ensureSeedKeys_snd advances_refl)

lemma advances_ensureActive: "advances w (snd (ensureActiveKeyPresent w))"
  using advances_hasActiveKey [of w]
    advances_trans [OF advances_hasActiveKey [of w]
      advances_generate [of "snd (hasActiveKey w)" "60 * 60"]]
  by (simp add: ensureActive_snd)

lemma advances_ensureExpired: "advances w (snd (ensureExpiredKeyPresent w))"
  using advances_hasExpiredKey [of w]
    advances_trans [OF advances_hasExpiredKey [of w]
      advances_generate [of "snd (hasExpiredKey w)" "-60"]]
  by (simp add: ensureExpired_snd)

lemma advances_ensure_for: "advances w (snd (ensure_for b w))"
  by (simp add: ensure_for_def advances_ensureActive advances_ensureExpired)

lemma advances_isExpiredRow: "advances w (snd (isExpiredRow row w))"
  using advances_nowSec [of w] by (simp add: isExpiredRow_def case_prod_beta)

lemma kidLabelForRow_eq:
  "kidLabelForRow row w =
     (if row_exp row \<le> clock w 0 div 1000 then ''key-expired-1'' else ''key-active-1'',
      snd (nowSec w))"
  by (simp add: kidLabelForRow_def isExpiredRow_def nowSec_eq)

lemma advances_kidLabelForRow: "advances w (snd (kidLabelForRow row w))"
  by (simp add: kidLabelForRow_eq advances_nowSec)

lemma snd_catch500: "snd (catch500 res r) = snd r"
  by (cases r) (auto simp: catch500_def split: sum.splits)

lemma advances_jwks_rows: "advances w (snd (jwks_rows w))"
proof -
  obtain a w1 where e1: "ensureActiveKeyPresent w = (a, w1)" by force
  obtain rows w2 where s1: "selectAllValidKeys w1 = (rows, w2)" by force
  obtain b w3 where e2: "ensureActiveKeyPresent w2 = (b, w3)" by force
  obtain rows' w4 where s2: "selectAllValidKeys w3 = (rows', w4)" by force
  have "advances w w1" using advances_ensureActive [of w] by (simp add: e1)
  moreover have "advances w1 w2" using advances_selectAllValidKeys [of w1] by (simp add: s1)
  ultimately have 2: "advances w w2" by (rule advances_trans)
  have "advances w2 w3" using advances_ensureActive [of w2] by (simp add: e2)
  with 2 have 3: "advances w w3" by (rule advances_trans)
  have "advances w3 w4" using advances_selectAllValidKeys [of w3] by (simp add: s2)
  with 3 have 4: "advances w w4" by (rule advances_trans)
  show ?thesis
    using \<open>advances w w1\<close> 2 3 4
    by (cases a; cases b) (simp_all add: jwks_rows_def e1 s1 e2 s2)
qed

lemma advances_jwks_project: "advances w (snd (jwks_project L rows w))"
  using advances_kidLabelForRow
  by (auto simp: jwks_project_def advances_refl case_prod_beta split: list.splits sum.splits)

lemma advances_jwks_handler: "advances w (snd (jwks_handler L res w))"
proof -
  obtain a w1 where r: "jwks_rows w = (a, w1)" by force
  have 1: "advances w w1" using advances_jwks_rows [of w] by (simp add: r)
  show ?thesis
  proof (cases a)
    case (Inl msg)
    with 1 show ?thesis by (simp add: jwks_handler_def snd_catch500 r)
  next
    case (Inr rows)
    obtain c w2 where p: "jwks_project L rows w1 = (c, w2)" by force
    have "advances w1 w2" using advances_jwks_project [of w1 L rows] by (simp add: p)
    with 1 have "advances w w2" by (rule advances_trans)
    with 1 show ?thesis
      by (cases c) (simp_all add: jwks_handler_def snd_catch500 r Inr p)
  qed
qed

lemma advances_auth_row: "advances w (snd (auth_row e w))"
proof -
  obtain a w1 where e1: "ensure_for e w = (a, w1)" by force
  obtain row w2 where s1: "selectOneKey e w1 = (row, w2)" by force
  obtain b w3 where e2: "ensure_for e w2 = (b, w3)" by force
  obtain row' w4 where s2: "selectOneKey e w3 = (row', w4)" by force
  have 1: "advances w w1" using advances_ensure_for [of w e] by (simp add: e1)
  moreover have "advances w1 w2" using advances_selectOneKey [of w1 e] by (simp add: s1)
  ultimately have 2: "advances w w2" by (rule advances_trans)
  have "advances w2 w3" using advances_ensure_for [of w2 e] by (simp add: e2)
  with 2 have 3: "advances w w3" by (rule advances_trans)
  have "advances w3 w4" using advances_selectOneKey [of w3 e] by (simp add: s2)
  with 3 have 4: "advances w w4" by (rule advances_trans)
  show ?thesis
    using 1 2 3 4
    by (cases a; cases b) (simp_all add: auth_row_def e1 s1 e2 s2)
qed

lemma advances_auth_token: "advances w (snd (auth_token L e row w))"
proof (cases "keyObjectFromDbRow L row")
  case (Inl msg)
  then show ?thesis by (simp add: auth_token_def advances_refl)
next
  case (Inr k)
  have "advances w (snd (nowSec (snd (nowSec w))))"
    by (rule advances_trans [OF advances_nowSec advances_nowSec])
  then show ?thesis
    by (simp add: auth_token_def Inr kidLabelForRow_eq case_prod_beta Let_def split: sum.splits)
qed

lemma advances_auth_handler: "advances w (snd (auth_handler L req res w))"
proof -
  let ?e = "wantExpired (req_query req)"
  obtain a w1 where r: "auth_row ?e w = (a, w1)" by force
  have 1: "advances w w1" using advances_auth_row [of w ?e] by (simp add: r)
  show ?thesis
  proof (cases a)
    case (Inl msg)
    with 1 show ?thesis by (simp add: auth_handler_def snd_catch500 r)
  next
    case (Inr sel)
    show ?thesis
    proof (cases sel)
      case None
      with 1 show ?thesis by (simp add: auth_handler_def snd_catch500 r Inr)
    next
      case (Some row)
      obtain c w2 where p: "auth_token L ?e row w1 = (c, w2)" by force
      have "advances w1 w2" using advances_auth_token [of w1 L ?e row] by (simp add: p)
      with 1 have "advances w w2" by (rule advances_trans)
      then show ?thesis
        by (cases c) (simp_all add: auth_handler_def snd_catch500 r Inr Some p)
    qed
  qed
qed

lemma advances_app: "advances w (snd (app L pre req w))"
  using advances_jwks_handler advances_auth_handler
  by (simp add: app_def advances_refl split: option.splits sum.splits)

text \<open>
  C9. The table is append-only. Every operation leaves the rows it found in place and
  unchanged: the queries (\<^verbatim>\<open>selectOneKey\<close>, \<^verbatim>\<open>selectAllValidKeys\<close>, \<^verbatim>\<open>hasActiveKey\<close>,
  \<^verbatim>\<open>hasExpiredKey\<close>, \<^verbatim>\<open>countKeys\<close>) return the table as it was, and after \<^verbatim>\<open>insertKey\<close>,
  \<^verbatim>\<open>generateAndStoreRsaKey\<close>, the three \<^verbatim>\<open>ensure\<close> policies, both route handlers and a whole
  request through the application, the old table is an initial segment of the new one, also
  when the operation ends in an error.
\<close>

theorem table_append_only:
  "prefix (table w) (table (snd (insertKey pem e w)))
   \<and> table (snd (selectOneKey b w)) = table w
   \<and> table (snd (selectAllValidKeys w)) = table w
   \<and> table (snd (hasActiveKey w)) = table w
   \<and> table (snd (hasExpiredKey w)) = table w
   \<and> table (snd (countKeys w)) = table w
   \<and> prefix (table w) (table (snd (generateAndStoreRsaKey ttl w)))
   \<and> prefix (table w) (table (snd (ensureSeedKeys w)))
   \<and> prefix (table w) (table (snd (ensureActiveKeyPresent w)))
   \<and> prefix (table w) (table (snd (ensureExpiredKeyPresent w)))
   \<and> prefix (table w) (table (snd (jwks_handler L res w)))
   \<and> prefix (table w) (table (snd (auth_handler L req res w)))
   \<and> prefix (table w) (table (snd (app L pre req w)))"
proof (intro conjI)
  show "prefix (table w) (table (snd (insertKey pem e w)))"
    using advances_insertKey by (simp add: advances_def)
  show "table (snd (selectOneKey b w)) = table w"
    by (simp add: selectOneKey_eq nowSec_frame)
  show "table (snd (selectAllValidKeys w)) = table w"
    by (simp add: selectAllValidKeys_def nowSec_eq)
  show "table (snd (hasActiveKey w)) = table w"
    by (simp add: hasActiveKey_eq nowSec_frame)
  show "table (snd (hasExpiredKey w)) = table w"
    by (simp add: hasExpiredKey_eq nowSec_frame)
  show "table (snd (countKeys w)) = table w"
    by (simp add: countKeys_def)
  show "prefix (table w) (table (snd (generateAndStoreRsaKey ttl w)))"
    using advances_generate by (simp add: advances_def)
  show "prefix (table w) (table (snd (ensureSeedKeys w)))"
    using advances_ensureSeedKeys by (simp add: advances_def)
  show "prefix (table w) (table (snd (ensureActiveKeyPresent w)))"
    using advances_ensureActive by (simp add: advances_def)
  show "prefix (table w) (table (snd (ensureExpiredKeyPresent w)))"
    using advances_ensureExpired by (simp add: advances_def)
  show "prefix (table w) (table (snd (jwks_handler L res w)))"
    using advances_jwks_handler by (simp add: advances_def)
  show "prefix (table w) (table (snd (auth_handler L req res w)))"
    using advances_auth_handler by (simp add: advances_def)
  show "prefix (table w) (table (snd (app L pre req w)))"
    using advances_app by (simp add: advances_def)
qed

section \<open>Key generation\<close>

lemma generate_Inl:
  "keygen w 0 = Inl msg \<Longrightarrow>
   generateAndStoreRsaKey ttl w = (Inl msg, w\<lparr>keygen := (\<lambda>n. keygen w (Suc n))\<rparr>)"
  by (simp add: generateAndStoreRsaKey_def)

lemma generate_Inr:
  "keygen w 0 = Inr pem \<Longrightarrow>
   generateAndStoreRsaKey ttl w =
     (Inr (next_rowid w, js_add (clock w 0 div 1000) \<lfloor>ttl\<rfloor>),
      w\<lparr>keygen := (\<lambda>n. keygen w (Suc n)),
        clock := (\<lambda>n. clock w (Suc n)),
        table := table w @ [\<lparr>row_kid = next_rowid w, row_key = pem,
                              row_exp = js_add (clock w 0 div 1000) \<lfloor>ttl\<rfloor>\<rparr>],
        sqlite_sequence := next_rowid w\<rparr>)"
  by (simp add: generateAndStoreRsaKey_def nowSec_eq insertKey_def Let_def next_rowid_def)

lemma generate_length:
  "length (table (snd (generateAndStoreRsaKey ttl w))) \<le> length (table w) + 1"
  by (cases "keygen w 0") (simp_all add: generate_Inl generate_Inr)

lemma ensureActive_noop:
  "\<exists>r \<in> set (table w). clock w 0 div 1000 < row_exp r \<Longrightarrow>
   ensureActiveKeyPresent w = (Inr (), snd (nowSec w))"
  by (simp add: ensureActiveKeyPresent_def hasActiveKey_eq)

lemma ensureExpired_noop:
  "\<exists>r \<in> set (table w). row_exp r \<le> clock w 0 div 1000 \<Longrightarrow>
   ensureExpiredKeyPresent w = (Inr (), snd (nowSec w))"
  by (simp add: ensureExpiredKeyPresent_def hasExpiredKey_eq)

lemma ensureActive_length:
  "length (table (snd (ensureActiveKeyPresent w))) \<le> length (table w) + 1"
  using generate_length [of "60 * 60" "snd (hasActiveKey w)"]
  by (simp add: ensureActive_snd hasActiveKey_eq nowSec_frame)

lemma ulp_of_small: "m < 2 ^ 53 \<Longrightarrow> ulp_of m = 1"
  by (simp add: ulp_of.simps [of m])

lemma ulp_of_two_53: "ulp_of 9007199254740992 = 2"
  by (subst ulp_of.simps) (simp add: ulp_of_small)

lemma ulp_of_near_two_60: "ulp_of 1152921504606847976 = 256"
  by (subst ulp_of.simps, simp)+

lemma nearest_double_exact:
  assumes "\<bar>n\<bar> \<le> 2 ^ 53"
  shows "nearest_double n = n"
proof (cases "\<bar>n\<bar> = 2 ^ 53")
  case True
  then have "nat \<bar>n\<bar> = 2 ^ 53" by simp
  then have "nearest_double n = sgn n * 2 ^ 53"
    by (simp add: nearest_double_def ulp_of_two_53 Let_def)
  with True show ?thesis by (simp add: abs_if split: if_splits)
next
  case False
  with assms have "nat \<bar>n\<bar> < 2 ^ 53" by simp
  then have "nearest_double n = sgn n * \<bar>n\<bar>"
    by (simp add: nearest_double_def ulp_of_small Let_def)
  then show ?thesis by (simp add: mult_sgn_abs)
qed

lemma js_add_exact: "\<bar>a + b\<bar> \<le> 2 ^ 53 \<Longrightarrow> js_add a b = a + b"
  by (simp add: js_add_def nearest_double_exact)

lemma nearest_double_near_two_60:
  "nearest_double 1152921504606847976 = 1152921504606848000"
  by (simp add: nearest_double_def Let_def ulp_of_near_two_60)

text \<open>
  C4, as stated, fails for a large TTL. With \<^verbatim>\<open>ttlSeconds\<close> \<open>= 2^60\<close>, an integer and a
  double, at second 1000 the exact sum is 1152921504606847976; the doubles near it are
  multiples of 256 and the sum of doubles is 1152921504606848000. The row is stored with
  that \<^verbatim>\<open>exp\<close>, 24 seconds after creation time plus the TTL.
\<close>

theorem generate_expiry_counterexample:
  "keygen example_store 0 = Inr ''pem-new''
   \<and> clock example_store 0 div 1000 + 1152921504606846976 = 1152921504606847976
   \<and> fst (generateAndStoreRsaKey (of_int 1152921504606846976) example_store) =
       Inr (7, 1152921504606848000)
   \<and> table (snd (generateAndStoreRsaKey (of_int 1152921504606846976) example_store)) =
       table example_store @ [\<lparr>row_kid = 7, row_key = ''pem-new'', row_exp = 1152921504606848000\<rparr>]
   \<and> (1152921504606848000 :: int) - 1152921504606847976 = 24"
  by (simp add: example_store_def generate_Inr next_rowid_def js_add_def nearest_double_near_two_60)

text \<open>
  C4, amended. For every integer \<^verbatim>\<open>ttlSeconds\<close> of magnitude at most \<open>2^53\<close> for which the sum
  with the second read from the clock is of magnitude at most \<open>2^53\<close>, when the key is made,
  \<^verbatim>\<open>generateAndStoreRsaKey\<close> returns normally and appends one row whose \<^verbatim>\<open>exp\<close> is that second
  plus \<^verbatim>\<open>ttlSeconds\<close>. Against the clock in milliseconds this is within one second of the time
  of creation plus the TTL. A negative TTL is no error and gives an expiration strictly
  before the time of creation.
\<close>

theorem generate_expiry:
  fixes ttlSeconds :: int
  assumes made: "keygen w 0 = Inr pem"
    and ttl_double: "\<bar>ttlSeconds\<bar> \<le> 2 ^ 53"
    and sum_exact: "\<bar>clock w 0 div 1000 + ttlSeconds\<bar> \<le> 2 ^ 53"
  defines "ms \<equiv> clock w 0"
  defines "e \<equiv> ms div 1000 + ttlSeconds"
  defines "res \<equiv> generateAndStoreRsaKey (of_int ttlSeconds) w"
  shows "(\<exists>k. fst res = Inr (k, e) \<and>
              table (snd res) = table w @ [\<lparr>row_kid = k, row_key = pem, row_exp = e\<rparr>])
       \<and> 1000 * e \<le> ms + 1000 * ttlSeconds
       \<and> ms + 1000 * ttlSeconds < 1000 * e + 1000
       \<and> (ttlSeconds < 0 \<longrightarrow> e < ms div 1000 \<and> 1000 * e < ms)"
proof (intro conjI impI)
  have "js_add (clock w 0 div 1000) ttlSeconds = e"
    using sum_exact by (simp add: js_add_exact e_def ms_def)
  then show "\<exists>k. fst res = Inr (k, e) \<and>
             table (snd res) = table w @ [\<lparr>row_kid = k, row_key = pem, row_exp = e\<rparr>]"
    by (simp add: res_def generate_Inr [OF made])
  have q: "1000 * (ms div 1000) \<le> ms" "ms < 1000 * (ms div 1000) + 1000"
    by presburger+
  from q show "1000 * e \<le> ms + 1000 * ttlSeconds" "ms + 1000 * ttlSeconds < 1000 * e + 1000"
    by (simp_all add: e_def algebra_simps)
  assume "ttlSeconds < 0"
  then show "e < ms div 1000" by (simp add: e_def)
  with q show "1000 * e < ms" by linarith
qed

theorem generate_expiry_witness:
  "keygen example_store 0 = Inr ''pem-new''
   \<and> \<bar>- 60 :: int\<bar> \<le> 2 ^ 53
   \<and> \<bar>clock example_store 0 div 1000 + (- 60)\<bar> \<le> 2 ^ 53
   \<and> fst (generateAndStoreRsaKey (of_int (- 60)) example_store) = Inr (7, 940)
   \<and> table (snd (generateAndStoreRsaKey (of_int (- 60)) example_store)) =
       table example_store @ [\<lparr>row_kid = 7, row_key = ''pem-new'', row_exp = 940\<rparr>]
   \<and> (940::int) < 1000"
  using generate_expiry [of example_store "''pem-new''" "- 60"]
  by (simp add: example_store_def generate_Inr next_rowid_def js_add_exact)

section \<open>Lifecycle policy\<close>

text \<open>
  C5. When a row with \<^verbatim>\<open>exp\<close> above the second read from the clock exists,
  \<^verbatim>\<open>ensureActiveKeyPresent\<close> returns without inserting: the table, the rowid counter and the
  key generator are untouched and \<^verbatim>\<open>countKeys\<close> is unchanged. A second call right after it
  changes the count by at most one, and by nothing when a row is still active at the second
  call's reading. In the same way \<^verbatim>\<open>ensureExpiredKeyPresent\<close> changes nothing when an expired
  row exists, and nothing on a second call either when the clock has not run backwards.
\<close>

theorem ensure_present_idempotent:
  fixes w :: world
  defines "t \<equiv> clock w 0 div 1000"
  defines "a1 \<equiv> snd (ensureActiveKeyPresent w)"
  defines "a2 \<equiv> snd (ensureActiveKeyPresent a1)"
  defines "x1 \<equiv> snd (ensureExpiredKeyPresent w)"
  defines "x2 \<equiv> snd (ensureExpiredKeyPresent x1)"
  shows "((\<exists>r \<in> set (table w). t < row_exp r) \<longrightarrow>
            fst (ensureActiveKeyPresent w) = Inr () \<and>
            table a1 = table w \<and> sqlite_sequence a1 = sqlite_sequence w \<and> keygen a1 = keygen w \<and>
            fst (countKeys a1) = fst (countKeys w) \<and>
            fst (countKeys a2) \<le> fst (countKeys w) + 1 \<and>
            ((\<exists>r \<in> set (table w). clock w 1 div 1000 < row_exp r) \<longrightarrow>
               table a2 = table w \<and> fst (countKeys a2) = fst (countKeys w)))
       \<and> ((\<exists>r \<in> set (table w). row_exp r \<le> t) \<longrightarrow>
            fst (ensureExpiredKeyPresent w) = Inr () \<and>
            table x1 = table w \<and> sqlite_sequence x1 = sqlite_sequence w \<and> keygen x1 = keygen w \<and>
            fst (countKeys x1) = fst (countKeys w) \<and>
            (clock w 0 \<le> clock w 1 \<longrightarrow>
               table x2 = table w \<and> fst (countKeys x2) = fst (countKeys w)))"
proof (intro conjI impI)
  assume act: "\<exists>r \<in> set (table w). t < row_exp r"
  then have a1: "ensureActiveKeyPresent w = (Inr (), snd (nowSec w))"
    unfolding t_def by (rule ensureActive_noop)
  show "fst (ensureActiveKeyPresent w) = Inr ()" by (simp add: a1)
  show tab: "table a1 = table w" by (simp add: a1_def a1 nowSec_frame)
  show "sqlite_sequence a1 = sqlite_sequence w" by (simp add: a1_def a1 nowSec_frame)
  show "keygen a1 = keygen w" by (simp add: a1_def a1 nowSec_frame)
  show "fst (countKeys a1) = fst (countKeys w)" by (simp add: countKeys_def tab)
  show "fst (countKeys a2) \<le> fst (countKeys w) + 1"
    using ensureActive_length [of a1] by (simp add: countKeys_def a2_def tab)
  assume "\<exists>r \<in> set (table w). clock w 1 div 1000 < row_exp r"
  then have "\<exists>r \<in> set (table a1). clock a1 0 div 1000 < row_exp r"
    by (simp add: a1_def a1 nowSec_frame)
  then have "ensureActiveKeyPresent a1 = (Inr (), snd (nowSec a1))"
    by (rule ensureActive_noop)
  then show tab2: "table a2 = table w" by (simp add: a2_def nowSec_frame tab)
  then show "fst (countKeys a2) = fst (countKeys w)" by (simp add: countKeys_def)
next
  assume old: "\<exists>r \<in> set (table w). row_exp r \<le> t"
  then have x1: "ensureExpiredKeyPresent w = (Inr (), snd (nowSec w))"
    unfolding t_def by (rule ensureExpired_noop)
  show "fst (ensureExpiredKeyPresent w) = Inr ()" by (simp add: x1)
  show tab: "table x1 = table w" by (simp add: x1_def x1 nowSec_frame)
  show "sqlite_sequence x1 = sqlite_sequence w" by (simp add: x1_def x1 nowSec_frame)
  show "keygen x1 = keygen w" by (simp add: x1_def x1 nowSec_frame)
  show "fst (countKeys x1) = fst (countKeys w)" by (simp add: countKeys_def tab)
  assume "clock w 0 \<le> clock w 1"
  then have "t \<le> clock w 1 div 1000"
    unfolding t_def by (rule zdiv_mono1) simp
  with old have "\<exists>r \<in> set (table x1). row_exp r \<le> clock x1 0 div 1000"
    by (auto simp: x1_def x1 nowSec_frame intro: order_trans)
  then have "ensureExpiredKeyPresent x1 = (Inr (), snd (nowSec x1))"
    by (rule ensureExpired_noop)
  then show tab2: "table x2 = table w" by (simp add: x2_def nowSec_frame tab)
  then show "fst (countKeys x2) = fst (countKeys w)" by (simp add: countKeys_def)
qed

theorem ensure_present_idempotent_witness:
  "(\<exists>r \<in> set (table example_store). clock example_store 0 div 1000 < row_exp r)
   \<and> (\<exists>r \<in> set (table example_store). row_exp r \<le> clock example_store 0 div 1000)
   \<and> fst (ensureActiveKeyPresent example_store) = Inr ()
   \<and> fst (countKeys (snd (ensureActiveKeyPresent (snd (ensureActiveKeyPresent example_store))))) = 6
   \<and> fst (ensureExpiredKeyPresent example_store) = Inr ()
   \<and> fst (countKeys (snd (ensureExpiredKeyPresent (snd (ensureExpiredKeyPresent example_store))))) = 6"
  using ensure_present_idempotent [of example_store]
  by (simp add: example_store_def countKeys_def)

section \<open>Token issuance\<close>

lemma mono_clock_advances: "mono_clock w \<Longrightarrow> advances w w' \<Longrightarrow> mono_clock w'"
  by (auto simp: mono_clock_def advances_def)

lemma mono_clock_next: "mono_clock w \<Longrightarrow> clock w 0 div 1000 \<le> clock w (Suc 0) div 1000"
  by (rule zdiv_mono1) (simp_all add: mono_clock_def)

lemma selectOneKey_Some:
  assumes "selectOneKey e wa = (Some r, w1)"
  shows "w1 = snd (nowSec wa) \<and> r \<in> set (table wa) \<and>
         (if e then row_exp r \<le> clock wa 0 div 1000 else clock wa 0 div 1000 < row_exp r)"
proof -
  from assms have w1: "w1 = snd (nowSec wa)"
    and sel: "get_first (sort_key (\<lambda>r. if e then - row_exp r else row_exp r)
        (filter (\<lambda>r. if e then row_exp r \<le> clock wa 0 div 1000 else clock wa 0 div 1000 < row_exp r)
           (table wa))) = Some r"
    unfolding selectOneKey_eq by simp_all
  from get_first_sort_key_Some [OF sel] w1 show ?thesis by simp
qed

lemma auth_row_Some:
  assumes "auth_row e w = (Inr (Some r), w1)"
  shows "\<exists>wa. advances w wa \<and> selectOneKey e wa = (Some r, w1)"
proof -
  obtain a wa where e1: "ensure_for e w = (a, wa)" by force
  obtain row wb where s1: "selectOneKey e wa = (row, wb)" by force
  obtain b wc where e2: "ensure_for e wb = (b, wc)" by force
  obtain row' wd where s2: "selectOneKey e wc = (row', wd)" by force
  have 1: "advances w wa" using advances_ensure_for [of w e] by (simp add: e1)
  moreover have "advances wa wb" using advances_selectOneKey [of wa e] by (simp add: s1)
  ultimately have 2: "advances w wb" by (rule advances_trans)
  have "advances wb wc" using advances_ensure_for [of wb e] by (simp add: e2)
  with 2 have 3: "advances w wc" by (rule advances_trans)
  show ?thesis
  proof (cases row)
    case (Some r0)
    with assms have "r0 = r" "wb = w1"
      by (cases a; simp add: auth_row_def e1 s1)+
    with 1 s1 Some show ?thesis by blast
  next
    case None
    with assms have "row' = Some r \<and> wd = w1"
      by (cases a; cases b) (simp_all add: auth_row_def e1 s1 e2 s2)
    with 3 s2 show ?thesis by blast
  qed
qed

lemma auth_token_Inr:
  assumes "auth_token L e row w = (Inr tok, w2)"
  shows "\<exists>k. createPrivateKey L (row_key row) = Inr k \<and>
           sign L k (jwt_header tok) (jwt_claims tok) = Inr (jwt_signature tok) \<and>
           jwt_header tok = \<lparr>hdr_alg = ''RS256'', hdr_kid = fst (kidLabelForRow row (snd (nowSec w)))\<rparr> \<and>
           jwt_claims tok =
             \<lparr>claim_sub = ''userABC'', claim_iss = ''jwks-server'', claim_aud = ''gradebot'',
              claim_kid_db = String_of_int (row_kid row), claim_iat = fst (nowSec w),
              claim_exp = (if e then row_exp row else fst (nowSec w) + 300)\<rparr>"
  using assms
  by (auto simp: auth_token_def keyObjectFromDbRow_def Let_def case_prod_beta split: sum.splits)

lemma auth_handler_200:
  assumes "res_status (fst (auth_handler L req res w)) = 200"
  shows "\<exists>r w1 tok w2. auth_row (wantExpired (req_query req)) w = (Inr (Some r), w1) \<and>
           auth_token L (wantExpired (req_query req)) r w1 = (Inr tok, w2) \<and>
           fst (auth_handler L req res w) = json (Json_token tok tok) (status 200 res)"
proof -
  let ?e = "wantExpired (req_query req)"
  obtain a w1 where r: "auth_row ?e w = (a, w1)" by force
  show ?thesis
  proof (cases a)
    case (Inl msg)
    with assms show ?thesis
      by (simp add: auth_handler_def catch500_def r json_def status_def)
  next
    case (Inr sel)
    show ?thesis
    proof (cases sel)
      case None
      with assms show ?thesis
        by (simp add: auth_handler_def catch500_def r Inr json_def status_def)
    next
      case (Some row)
      obtain c w2 where p: "auth_token L ?e row w1 = (c, w2)" by force
      show ?thesis
      proof (cases c)
        case (Inl msg)
        with assms show ?thesis
          by (simp add: auth_handler_def catch500_def r Inr Some p json_def status_def)
      next
        case (Inr tok)
        then show ?thesis
          by (simp add: auth_handler_def catch500_def r \<open>a = Inr sel\<close> Some p)
      qed
    qed
  qed
qed

text \<open>
  C2. Whenever the handler of \<^verbatim>\<open>POST /auth\<close> answers 200, there is a row \<open>r\<close> that the
  selection step returned, still in the table, and the body carries one token in both of
  its fields \<^verbatim>\<open>jwt\<close> and \<^verbatim>\<open>token\<close>. The token is signed with the key parsed from \<open>r\<close>; its
  header has \<^verbatim>\<open>alg\<close> RS256 and as \<^verbatim>\<open>kid\<close> the label \<^verbatim>\<open>kidLabelForRow\<close> gives \<open>r\<close>; its claims are
  the three constants, \<^verbatim>\<open>kid_db\<close> the decimal text of the numeric kid of \<open>r\<close>, \<^verbatim>\<open>iat\<close> the second
  read from the clock after the selection, and \<^verbatim>\<open>exp\<close> either \<^verbatim>\<open>iat + 300\<close> (active request) or
  the stored \<^verbatim>\<open>exp\<close> of \<open>r\<close> (expired request). In the expired case \<^verbatim>\<open>exp\<close> is not after \<^verbatim>\<open>iat\<close>,
  provided the clock does not run backwards.
\<close>

theorem auth_token_contract:
  fixes L :: lib and req :: request and res :: response and w :: world
  defines "expired \<equiv> wantExpired (req_query req)"
  defines "out \<equiv> fst (auth_handler L req res w)"
  assumes ok: "res_status out = 200"
  shows "\<exists>r w1 tok k.
           auth_row expired w = (Inr (Some r), w1) \<and> r \<in> set (table w1) \<and>
           res_body out = Json_token tok tok \<and>
           createPrivateKey L (row_key r) = Inr k \<and>
           sign L k (jwt_header tok) (jwt_claims tok) = Inr (jwt_signature tok) \<and>
           hdr_alg (jwt_header tok) = ''RS256'' \<and>
           hdr_kid (jwt_header tok) = fst (kidLabelForRow r (snd (nowSec w1))) \<and>
           claim_sub (jwt_claims tok) = ''userABC'' \<and>
           claim_iss (jwt_claims tok) = ''jwks-server'' \<and>
           claim_aud (jwt_claims tok) = ''gradebot'' \<and>
           claim_kid_db (jwt_claims tok) = String_of_int (row_kid r) \<and>
           claim_iat (jwt_claims tok) = fst (nowSec w1) \<and>
           claim_exp (jwt_claims tok) =
             (if expired then row_exp r else claim_iat (jwt_claims tok) + 300) \<and>
           (expired \<and> mono_clock w \<longrightarrow> claim_exp (jwt_claims tok) \<le> claim_iat (jwt_claims tok))"
proof -
  from auth_handler_200 [of L req res w] ok
  obtain r w1 tok w2 where row: "auth_row expired w = (Inr (Some r), w1)"
    and tok: "auth_token L expired r w1 = (Inr tok, w2)"
    and out: "out = json (Json_token tok tok) (status 200 res)"
    unfolding out_def expired_def by blast
  from auth_row_Some [OF row] obtain wa where wa: "advances w wa"
    and sel: "selectOneKey expired wa = (Some r, w1)" by blast
  from selectOneKey_Some [OF sel] have w1: "w1 = snd (nowSec wa)" and mem: "r \<in> set (table wa)"
    and q: "if expired then row_exp r \<le> clock wa 0 div 1000 else clock wa 0 div 1000 < row_exp r"
    by simp_all
  from auth_token_Inr [OF tok] obtain k where k: "createPrivateKey L (row_key r) = Inr k"
    and sg: "sign L k (jwt_header tok) (jwt_claims tok) = Inr (jwt_signature tok)"
    and h: "jwt_header tok = \<lparr>hdr_alg = ''RS256'', hdr_kid = fst (kidLabelForRow r (snd (nowSec w1)))\<rparr>"
    and c: "jwt_claims tok =
             \<lparr>claim_sub = ''userABC'', claim_iss = ''jwks-server'', claim_aud = ''gradebot'',
              claim_kid_db = String_of_int (row_kid r), claim_iat = fst (nowSec w1),
              claim_exp = (if expired then row_exp r else fst (nowSec w1) + 300)\<rparr>"
    by blast
  have past: "claim_exp (jwt_claims tok) \<le> claim_iat (jwt_claims tok)"
    if "expired" "mono_clock w"
  proof -
    from that wa have "mono_clock wa" by (simp add: mono_clock_advances)
    then have "clock wa 0 div 1000 \<le> clock wa (Suc 0) div 1000" by (rule mono_clock_next)
    with q that show ?thesis by (simp add: c w1 nowSec_frame)
  qed
  have "r \<in> set (table w1)" using mem by (simp add: w1 nowSec_frame)
  moreover have "res_body out = Json_token tok tok" by (simp add: out json_def status_def)
  ultimately show ?thesis
    using row k sg past by (intro exI [of _ r] exI [of _ w1] exI [of _ tok] exI [of _ k]) (simp add: h c)
qed

lemmas ev = auth_handler_def catch500_def auth_row_def auth_token_def ensure_for_def
  ensureActiveKeyPresent_def ensureExpiredKeyPresent_def hasActiveKey_eq hasExpiredKey_eq
  selectOneKey_eq nowSec_eq get_first_def kidLabelForRow_eq keyObjectFromDbRow_def
  json_def status_def new_response_def String_of_int_def
  wantExpired_def toLowerCase_def lower_char_def

theorem auth_token_contract_witness:
  "mono_clock example_store
   \<and> fst (auth_handler example_lib (auth_request (Some (QStr ''true''))) new_response example_store) =
     \<lparr>res_status = 200, res_headers = Map.empty,
      res_body = Json_token
        \<lparr>jwt_header = \<lparr>hdr_alg = ''RS256'', hdr_kid = ''key-expired-1''\<rparr>,
         jwt_claims = \<lparr>claim_sub = ''userABC'', claim_iss = ''jwks-server'', claim_aud = ''gradebot'',
                       claim_kid_db = ''5'', claim_iat = 1000, claim_exp = 990\<rparr>,
         jwt_signature = ''signature''\<rparr>
        \<lparr>jwt_header = \<lparr>hdr_alg = ''RS256'', hdr_kid = ''key-expired-1''\<rparr>,
         jwt_claims = \<lparr>claim_sub = ''userABC'', claim_iss = ''jwks-server'', claim_aud = ''gradebot'',
                       claim_kid_db = ''5'', claim_iat = 1000, claim_exp = 990\<rparr>,
         jwt_signature = ''signature''\<rparr>\<rparr>
   \<and> fst (auth_handler example_lib (auth_request None) new_response example_store) =
     \<lparr>res_status = 200, res_headers = Map.empty,
      res_body = Json_token
        \<lparr>jwt_header = \<lparr>hdr_alg = ''RS256'', hdr_kid = ''key-active-1''\<rparr>,
         jwt_claims = \<lparr>claim_sub = ''userABC'', claim_iss = ''jwks-server'', claim_aud = ''gradebot'',
                       claim_kid_db = ''2'', claim_iat = 1000, claim_exp = 1300\<rparr>,
         jwt_signature = ''signature''\<rparr>
        \<lparr>jwt_header = \<lparr>hdr_alg = ''RS256'', hdr_kid = ''key-active-1''\<rparr>,
         jwt_claims = \<lparr>claim_sub = ''userABC'', claim_iss = ''jwks-server'', claim_aud = ''gradebot'',
                       claim_kid_db = ''2'', claim_iat = 1000, claim_exp = 1300\<rparr>,
         jwt_signature = ''signature''\<rparr>\<rparr>"
  using auth_token_contract [of example_lib "auth_request (Some (QStr ''true''))" new_response example_store]
    auth_token_contract [of example_lib "auth_request None" new_response example_store]
  by (simp add: ev example_lib_def example_store_def auth_request_def mono_clock_def)

section \<open>The JWKS handler\<close>

text \<open>
  The rows the handler works on are the result of one \<^verbatim>\<open>selectAllValidKeys\<close>: the valid rows
  by ascending \<^verbatim>\<open>exp\<close>. What it answers, given these rows: with no row, 404; with rows and a
  first row whose PEM parses, 200 and exactly one key, the projection of the first row under
  the label computed for it, with the fixed members set.
\<close>

lemma jwks_rows_Inr:
  assumes "jwks_rows w = (Inr rows, w1)"
  shows "\<exists>wa. advances w wa \<and> selectAllValidKeys wa = (rows, w1)"
proof -
  obtain a wa where e1: "ensureActiveKeyPresent w = (a, wa)" by force
  obtain rs wb where s1: "selectAllValidKeys wa = (rs, wb)" by force
  obtain b wc where e2: "ensureActiveKeyPresent wb = (b, wc)" by force
  obtain rs' wd where s2: "selectAllValidKeys wc = (rs', wd)" by force
  have 1: "advances w wa" using advances_ensureActive [of w] by (simp add: e1)
  moreover have "advances wa wb" using advances_selectAllValidKeys [of wa] by (simp add: s1)
  ultimately have 2: "advances w wb" by (rule advances_trans)
  have "advances wb wc" using advances_ensureActive [of wb] by (simp add: e2)
  with 2 have 3: "advances w wc" by (rule advances_trans)
  show ?thesis
  proof (cases "rs = []")
    case False
    with assms have "rs = rows" "wb = w1"
      by (cases a; simp add: jwks_rows_def e1 s1)+
    with 1 s1 show ?thesis by blast
  next
    case True
    with assms have "rs' = rows \<and> wd = w1"
      by (cases a; cases b) (simp_all add: jwks_rows_def e1 s1 e2 s2)
    with 3 s2 show ?thesis by blast
  qed
qed

lemma jwks_handler_found:
  assumes "jwks_rows w = (Inr (r # rest), w1)" and "createPrivateKey L (row_key r) = Inr k"
  shows "jwks_handler L res w =
           (json (Json_keys [publicJwkFromPrivateKey L k (fst (kidLabelForRow r w1))]) (status 200 res),
            snd (nowSec w1))"
  using assms
  by (simp add: jwks_handler_def jwks_project_def catch500_def keyObjectFromDbRow_def kidLabelForRow_eq)

lemma jwks_handler_none:
  assumes "jwks_rows w = (Inr [], w1)"
  shows "jwks_handler L res w = (json (Json_error ''no keys available'') (status 404 res), w1)"
  using assms by (simp add: jwks_handler_def catch500_def)

lemma publicJwk_members:
  "publicJwkFromPrivateKey L k lbl ''kid'' = Some lbl"
  "publicJwkFromPrivateKey L k lbl ''kty'' = Some ''RSA''"
  "publicJwkFromPrivateKey L k lbl ''use'' = Some ''sig''"
  "publicJwkFromPrivateKey L k lbl ''alg'' = Some ''RS256''"
  by (simp_all add: publicJwkFromPrivateKey_def)

lemmas evj = jwks_handler_def jwks_rows_def jwks_project_def catch500_def
  ensureActiveKeyPresent_def hasActiveKey_eq selectAllValidKeys_def order_by_asc_def
  nowSec_eq kidLabelForRow_eq keyObjectFromDbRow_def json_def status_def new_response_def

lemma jwks_label_active:
  "clock w1 0 div 1000 < row_exp r \<Longrightarrow> fst (kidLabelForRow r w1) = ''key-active-1''"
  by (simp add: kidLabelForRow_eq)

text \<open>
  C3. The label of the published key is computed from a clock reading of its own, taken
  after the rows were selected. On \<open>race_store\<close> the backfill finds the key active and the
  selection returns it as valid, both at second 1000; the label is computed at second 1001,
  when the key has expired. The answer is 200 with exactly one key, published under
  \<^verbatim>\<open>key-expired-1\<close> and not under \<^verbatim>\<open>key-active-1\<close>.
\<close>

theorem jwks_label_race:
  "fst (ensureActiveKeyPresent race_store) = Inr ()
   \<and> fst (selectAllValidKeys (snd (ensureActiveKeyPresent race_store))) =
       [\<lparr>row_kid = 1, row_key = ''pem-1'', row_exp = 1001\<rparr>]
   \<and> res_status (fst (jwks_handler example_lib new_response race_store)) = 200
   \<and> res_body (fst (jwks_handler example_lib new_response race_store)) =
       Json_keys [publicJwkFromPrivateKey example_lib (KeyObject ''pem-1'') ''key-expired-1'']
   \<and> publicJwkFromPrivateKey example_lib (KeyObject ''pem-1'') ''key-expired-1'' ''kid''
       = Some ''key-expired-1''"
  by (simp add: evj race_store_def example_lib_def publicJwk_members)

section \<open>Routing\<close>

lemma route_literals:
  "route ''/auth'' req \<Longrightarrow> \<not> route ''/jwks'' req \<and> \<not> route ''/.well-known/jwks.json'' req"
  "route ''/jwks'' req \<Longrightarrow> \<not> route ''/.well-known/jwks.json'' req"
  by (auto simp: route_def toLowerCase_def lower_char_def)

text \<open>
  C10, as stated, fails for a request that the body parser answers itself: \<^verbatim>\<open>express.json()\<close>
  is mounted before the CORS layer, and an \<^verbatim>\<open>OPTIONS\<close> request with a JSON body that does
  not parse is answered 400, not 204.
\<close>

theorem options_malformed_body_counterexample:
  "req_method (malformed_options_request ''/auth'') = ''OPTIONS''
   \<and> req_path (malformed_options_request ''/auth'') = ''/auth''
   \<and> req_body (malformed_options_request ''/auth'') = Rejected 400
   \<and> res_status (fst (app example_lib express_json (malformed_options_request ''/auth'') example_store)) = 400
   \<and> res_status (fst (app example_lib express_json (malformed_options_request ''/auth'') example_store)) \<noteq> 204"
  by (simp add: malformed_options_request_def options_request_def plain_request_def app_def
      express_json_def)

text \<open>
  C10, amended. Every \<^verbatim>\<open>OPTIONS\<close> request that the layers mounted first hand on, which is
  every one whose body \<^verbatim>\<open>express.json()\<close> does not reject, is answered by the CORS layer, on
  any path: status 204, no body, no \<^verbatim>\<open>Allow\<close> header, state untouched. It never reaches a
  method guard, so it is never answered 405.
\<close>

theorem options_short_circuit:
  assumes "pre req = None" and "req_method req = ''OPTIONS''"
  shows "res_status (fst (app L pre req w)) = 204
       \<and> res_body (fst (app L pre req w)) = No_body
       \<and> res_status (fst (app L pre req w)) \<noteq> 405
       \<and> res_headers (fst (app L pre req w)) ''Allow'' = None
       \<and> snd (app L pre req w) = w"
  using assms
  by (simp add: app_def cors_def sendStatus_def status_def setHeader_def new_response_def)

theorem options_short_circuit_witness:
  "express_json (options_request ''/auth'') = None
   \<and> req_method (options_request ''/auth'') = ''OPTIONS''
   \<and> res_status (fst (app example_lib express_json (options_request ''/auth'') example_store)) = 204
   \<and> res_status (fst (app example_lib express_json (options_request ''/jwks'') example_store)) = 204
   \<and> res_status (fst (app example_lib express_json (options_request ''/.well-known/jwks.json'') example_store)) = 204
   \<and> res_status (fst (app example_lib express_json (options_request ''/other'') example_store)) = 204
   \<and> res_body (fst (app example_lib express_json (options_request ''/auth'') example_store)) = No_body"
  using options_short_circuit [of express_json "options_request ''/auth''" example_lib example_store]
    options_short_circuit [of express_json "options_request ''/jwks''" example_lib example_store]
    options_short_circuit [of express_json "options_request ''/.well-known/jwks.json''" example_lib example_store]
    options_short_circuit [of express_json "options_request ''/other''" example_lib example_store]
  by (simp add: options_request_def plain_request_def express_json_def)

text \<open>
  C8, as stated, fails for \<^verbatim>\<open>OPTIONS\<close>: an \<^verbatim>\<open>OPTIONS\<close> request on \<^verbatim>\<open>/jwks\<close> is not a \<^verbatim>\<open>GET\<close>,
  and it is answered 204 without an \<^verbatim>\<open>Allow\<close> header.
\<close>

theorem method_guard_options_counterexample:
  "req_method (options_request ''/jwks'') \<noteq> ''GET''
   \<and> req_path (options_request ''/jwks'') = ''/jwks''
   \<and> express_json (options_request ''/jwks'') = None
   \<and> res_status (fst (app example_lib express_json (options_request ''/jwks'') example_store)) = 204
   \<and> res_status (fst (app example_lib express_json (options_request ''/jwks'') example_store)) \<noteq> 405
   \<and> res_headers (fst (app example_lib express_json (options_request ''/jwks'') example_store)) ''Allow'' = None"
  by (simp add: options_request_def plain_request_def app_def cors_def sendStatus_def status_def setHeader_def
      new_response_def express_json_def)

text \<open>
  C8, amended. Every request that the layers mounted first hand on, which is every one
  whose body \<^verbatim>\<open>express.json()\<close> does not reject, and whose method is not \<^verbatim>\<open>OPTIONS\<close>, is
  answered 405 when its path is a JWKS path and its method is not \<^verbatim>\<open>GET\<close>, with
  \<^verbatim>\<open>Allow: GET\<close>, and when its path is \<^verbatim>\<open>/auth\<close> and its method is not \<^verbatim>\<open>POST\<close>, with
  \<^verbatim>\<open>Allow: POST\<close>. The state is untouched. A request whose body is rejected is answered with
  the status of the rejection instead, and an \<^verbatim>\<open>OPTIONS\<close> request 204.
\<close>

theorem method_guard_405:
  fixes L :: lib and pre :: "request \<Rightarrow> response option" and req :: request and w :: world
  assumes "pre req = None" and "req_method req \<noteq> ''OPTIONS''"
  defines "out \<equiv> fst (app L pre req w)"
  shows "((route ''/jwks'' req \<or> route ''/.well-known/jwks.json'' req) \<and> req_method req \<noteq> ''GET'' \<longrightarrow>
            res_status out = 405 \<and> res_headers out ''Allow'' = Some ''GET'' \<and>
            res_body out = Json_error ''not allowed'' \<and> snd (app L pre req w) = w)
       \<and> (route ''/auth'' req \<and> req_method req \<noteq> ''POST'' \<longrightarrow>
            res_status out = 405 \<and> res_headers out ''Allow'' = Some ''POST'' \<and>
            res_body out = Json_error ''not allowed'' \<and> snd (app L pre req w) = w)"
proof (intro conjI impI)
  assume a: "(route ''/jwks'' req \<or> route ''/.well-known/jwks.json'' req) \<and> req_method req \<noteq> ''GET''"
  from a assms(1,2) have "app L pre req w =
      (json (Json_error ''not allowed'') (status 405 (setHeader ''Allow'' ''GET''
        (projr (cors req new_response)))), w)"
    by (auto simp: app_def cors_def app_all_def methodGuard_def Let_def)
  then show "res_status out = 405" "res_headers out ''Allow'' = Some ''GET''"
    "res_body out = Json_error ''not allowed''" "snd (app L pre req w) = w"
    by (simp_all add: out_def json_def status_def setHeader_def)
next
  assume a: "route ''/auth'' req \<and> req_method req \<noteq> ''POST''"
  with route_literals(1) [of req] assms(1,2) have "app L pre req w =
      (json (Json_error ''not allowed'') (status 405 (setHeader ''Allow'' ''POST''
        (projr (cors req new_response)))), w)"
    by (auto simp: app_def cors_def app_all_def methodGuard_def Let_def)
  then show "res_status out = 405" "res_headers out ''Allow'' = Some ''POST''"
    "res_body out = Json_error ''not allowed''" "snd (app L pre req w) = w"
    by (simp_all add: out_def json_def status_def setHeader_def)
qed

theorem method_guard_405_witness:
  "express_json (plain_request ''PUT'' ''/auth'') = None
   \<and> req_method (plain_request ''PUT'' ''/auth'') \<noteq> ''OPTIONS''
   \<and> route ''/auth'' (plain_request ''PUT'' ''/auth'')
   \<and> route ''/jwks'' (plain_request ''POST'' ''/jwks'')
   \<and> res_status (fst (app example_lib express_json (plain_request ''PUT'' ''/auth'') example_store)) = 405
   \<and> res_headers (fst (app example_lib express_json (plain_request ''PUT'' ''/auth'') example_store)) ''Allow''
       = Some ''POST''
   \<and> res_status (fst (app example_lib express_json (plain_request ''POST'' ''/jwks'') example_store)) = 405
   \<and> res_headers (fst (app example_lib express_json (plain_request ''POST'' ''/jwks'') example_store)) ''Allow''
       = Some ''GET''
   \<and> res_status (fst (app example_lib express_json
         (plain_request ''HEAD'' ''/.well-known/jwks.json'') example_store)) = 405"
  using method_guard_405 [of express_json "plain_request ''PUT'' ''/auth''" example_lib example_store]
    method_guard_405 [of express_json "plain_request ''POST'' ''/jwks''" example_lib example_store]
    method_guard_405 [of express_json "plain_request ''HEAD'' ''/.well-known/jwks.json''" example_lib example_store]
  by (simp add: plain_request_def route_def toLowerCase_def lower_char_def express_json_def)

section \<open>The parameter \<^verbatim>\<open>expired\<close>\<close>

lemma lower_char_letters:
  "lower_char c = CHR ''t'' \<longleftrightarrow> c = CHR ''t'' \<or> c = CHR ''T''"
  "lower_char c = CHR ''r'' \<longleftrightarrow> c = CHR ''r'' \<or> c = CHR ''R''"
  "lower_char c = CHR ''u'' \<longleftrightarrow> c = CHR ''u'' \<or> c = CHR ''U''"
  "lower_char c = CHR ''e'' \<longleftrightarrow> c = CHR ''e'' \<or> c = CHR ''E''"
  "lower_char c = CHR ''1'' \<longleftrightarrow> c = CHR ''1''"
  by (auto simp: lower_char_def)

lemma toLowerCase_one: "toLowerCase s = ''1'' \<longleftrightarrow> s = ''1''"
  by (auto simp: toLowerCase_def map_eq_Cons_conv lower_char_letters)

lemma map_eq_four:
  "map f s = [x, y, z, u] \<longleftrightarrow>
     (\<exists>a b c d. s = [a, b, c, d] \<and> f a = x \<and> f b = y \<and> f c = z \<and> f d = u)"
  by (auto simp: map_eq_Cons_conv)

lemma toLowerCase_true:
  "toLowerCase s = ''true'' \<longleftrightarrow>
     (\<exists>a b c d. s = [a, b, c, d] \<and> (a = CHR ''t'' \<or> a = CHR ''T'') \<and> (b = CHR ''r'' \<or> b = CHR ''R'')
        \<and> (c = CHR ''u'' \<or> c = CHR ''U'') \<and> (d = CHR ''e'' \<or> d = CHR ''E''))"
  unfolding toLowerCase_def map_eq_four lower_char_letters ..

lemma spellings_iff:
  "s \<in> set [[a, b, c, d]. a \<leftarrow> A, b \<leftarrow> B, c \<leftarrow> C, d \<leftarrow> D] \<longleftrightarrow>
     (\<exists>a b c d. s = [a, b, c, d] \<and> a \<in> set A \<and> b \<in> set B \<and> c \<in> set C \<and> d \<in> set D)"
  by auto

lemma spec_expired_value_iff:
  "spec_expired_value s \<longleftrightarrow> s = '''' \<or> toLowerCase s = ''1'' \<or> toLowerCase s = ''true''"
proof -
  have "s \<in> set [[a, b, c, d]. a \<leftarrow> ''tT'', b \<leftarrow> ''rR'', c \<leftarrow> ''uU'', d \<leftarrow> ''eE''] \<longleftrightarrow>
        toLowerCase s = ''true''"
    unfolding spellings_iff toLowerCase_true by simp
  then show ?thesis
    unfolding spec_expired_value_def toLowerCase_one by simp
qed

lemma wantExpired_coerced:
  "wantExpired [''expired'' \<mapsto> QArr [QStr ''1'']]"
  "wantExpired [''expired'' \<mapsto> QArr [QStr ''True'']]"
  "\<not> wantExpired [''expired'' \<mapsto> QArr [QStr '''']]"
  "\<not> wantExpired [''expired'' \<mapsto> QArr [QStr ''1'', QStr ''1'']]"
  by (simp_all add: wantExpired_def toLowerCase_def lower_char_def)

text \<open>
  C6, as stated, fails for a value that is not a string. The source compares
  \<^verbatim>\<open>String(req.query.expired)\<close>, and the coercion of the one-element array \<^verbatim>\<open>["1"]\<close>, which the
  extended query parser builds from \<^verbatim>\<open>?expired[]=1\<close>, is \<^verbatim>\<open>"1"\<close>: the request is an expired
  request, although its value is none of the accepted strings.
\<close>

theorem wantExpired_array_counterexample:
  "wantExpired [''expired'' \<mapsto> QArr [QStr ''1'']]
   \<and> \<not> spec_wantExpired [''expired'' \<mapsto> QArr [QStr ''1'']]"
  by (simp add: wantExpired_def spec_wantExpired_def toLowerCase_def lower_char_def)

text \<open>
  C6, amended. A request is an expired request exactly when the parameter is present and
  its value is the empty string or a value whose coercion by \<^verbatim>\<open>String\<close> is, without regard to
  letter case, \<^verbatim>\<open>1\<close> or \<^verbatim>\<open>true\<close>. For a string value these are exactly the strings the
  specification's parse accepts. Without the parameter the request is an active request,
  and every value that is not accepted is no error: the handler does with it exactly what
  it does without the parameter.
\<close>

theorem wantExpired_spellings:
  "wantExpired q =
     (case q ''expired'' of
        None \<Rightarrow> False
      | Some v \<Rightarrow> v = QStr '''' \<or> js_String v \<noteq> '''' \<and> spec_expired_value (js_String v))
   \<and> wantExpired (q(''expired'' := None)) = False
   \<and> wantExpired (q(''expired'' \<mapsto> QStr s)) = spec_expired_value s
   \<and> (\<not> spec_expired_value s \<longrightarrow>
        auth_handler L (req\<lparr>req_query := q(''expired'' \<mapsto> QStr s)\<rparr>) res w =
        auth_handler L (req\<lparr>req_query := q(''expired'' := None)\<rparr>) res w)
   \<and> (\<not> wantExpired (req_query req) \<longrightarrow>
        auth_handler L req res w =
        auth_handler L (req\<lparr>req_query := (req_query req)(''expired'' := None)\<rparr>) res w)"
proof -
  have 0: "wantExpired q =
     (case q ''expired'' of
        None \<Rightarrow> False
      | Some v \<Rightarrow> v = QStr '''' \<or> js_String v \<noteq> '''' \<and> spec_expired_value (js_String v))"
    by (auto simp: wantExpired_def spec_expired_value_iff toLowerCase_def split: option.splits)
  have 1: "wantExpired (q(''expired'' := None)) = False" for q
    by (simp add: wantExpired_def)
  have 2: "wantExpired (q(''expired'' \<mapsto> QStr s)) = spec_expired_value s"
    by (simp add: wantExpired_def spec_expired_value_iff)
  have 3: "\<not> spec_expired_value s \<longrightarrow>
        auth_handler L (req\<lparr>req_query := q(''expired'' \<mapsto> QStr s)\<rparr>) res w =
        auth_handler L (req\<lparr>req_query := q(''expired'' := None)\<rparr>) res w"
    using 1 [of q] 2 by (simp add: auth_handler_def)
  have 4: "\<not> wantExpired (req_query req) \<longrightarrow>
        auth_handler L req res w =
        auth_handler L (req\<lparr>req_query := (req_query req)(''expired'' := None)\<rparr>) res w"
    using 1 [of "req_query req"] by (simp add: auth_handler_def)
  from 0 1 [of q] 2 3 4 show ?thesis by blast
qed

theorem wantExpired_spellings_witness:
  "\<not> spec_expired_value ''yes''
   \<and> \<not> wantExpired (req_query (auth_request (Some (QArr [QStr ''1'', QStr ''1'']))))
   \<and> wantExpired [''expired'' \<mapsto> QStr ''yes''] = False
   \<and> wantExpired [''expired'' \<mapsto> QStr ''TRUE''] = True
   \<and> wantExpired [''expired'' \<mapsto> QStr ''''] = True
   \<and> wantExpired [''expired'' \<mapsto> QStr ''1''] = True
   \<and> wantExpired [''expired'' \<mapsto> QArr [QStr ''True'']] = True
   \<and> wantExpired [''expired'' \<mapsto> QArr [QStr '''']] = False
   \<and> auth_handler example_lib (auth_request (Some (QStr ''yes''))) new_response example_store =
       auth_handler example_lib (auth_request None) new_response example_store
   \<and> auth_handler example_lib (auth_request (Some (QArr [QStr ''1'', QStr ''1'']))) new_response
         example_store =
       auth_handler example_lib (auth_request None) new_response example_store"
  using wantExpired_spellings [of Map.empty "''yes''" example_lib "auth_request None" new_response example_store]
    wantExpired_spellings [of Map.empty "''TRUE''" example_lib
      "auth_request (Some (QArr [QStr ''1'', QStr ''1'']))" new_response example_store]
    wantExpired_spellings [of "[''expired'' \<mapsto> QArr [QStr ''True'']]" "''''" example_lib "auth_request None" new_response example_store]
    wantExpired_spellings [of "[''expired'' \<mapsto> QArr [QStr '''']]" "''1''" example_lib "auth_request None" new_response example_store]
  by (simp add: spec_expired_value_def auth_request_def wantExpired_coerced)

end
